theory Spec2Isabelle
  imports Main "HOL-Library.Word" "HOL-Library.Char_ord" "HOL-Library.List_Lexorder"
begin

section \<open>Shared helpers of the Go runtime and standard library\<close>

text \<open>
  \<^verbatim>\<open>strings.Join(elems, sep)\<close>: the elements concatenated with the separator between
  neighbours; the empty string for no element.
\<close>

fun strings_Join :: "string list \<Rightarrow> string \<Rightarrow> string" where
  "strings_Join [] sep = []"
| "strings_Join [x] sep = x"
| "strings_Join (x # y # zs) sep = x @ sep @ strings_Join (y # zs) sep"

text \<open>
  \<^verbatim>\<open>fmt.Sprintf("%d", n)\<close>: the decimal digits of an integer, with a minus sign for a
  negative one.
\<close>

fun digits :: "nat \<Rightarrow> string" where
  "digits n = (if n < 10 then [''0123456789'' ! n]
               else digits (n div 10) @ [''0123456789'' ! (n mod 10)])"

declare digits.simps [simp del]

definition Sprintf_d :: "int \<Rightarrow> string" where
  "Sprintf_d i = (if i < 0 then ''-'' @ digits (nat (- i)) else digits (nat i))"

text \<open>The two ways the rendering code can abort: both are run-time panics of Go.\<close>

datatype error = IndexOutOfRange | NilPointerDereference

section \<open>jsonb.go: the nested value builder\<close>

text \<open>
  A value of Go's \<^verbatim>\<open>interface{}\<close> as \<^verbatim>\<open>Parse\<close> distinguishes it: a
  \<^verbatim>\<open>map[string]interface{}\<close>, a \<^verbatim>\<open>[]interface{}\<close>, or anything else (the nil
  interface, a string such as an object key, any other value). A Go map has no order of
  its own: it is an association list whose order is the order in which \<^verbatim>\<open>range\<close>
  happens to visit the keys. The keys of a Go map are distinct.
\<close>

datatype 'a iface = INil | IString string | IScalar 'a
  | IMap "(string \<times> 'a iface) list" | ISlice "'a iface list"

record 'a JSONBBuilder =
  Array :: bool
  Bindings :: "'a iface list"

text \<open>\<^verbatim>\<open>val, _ := in[key]\<close>: the value stored under the key, the nil interface for none.\<close>

definition map_index :: "(string \<times> 'a iface) list \<Rightarrow> string \<Rightarrow> 'a iface" where
  "map_index m key = (case map_of m key of Some v \<Rightarrow> v | None \<Rightarrow> INil)"

text \<open>The second loop of \<^verbatim>\<open>BuildJSONBObject\<close>: key and value, for each sorted key.\<close>

fun objectLoop :: "(string \<times> 'a iface) list \<Rightarrow> string list \<Rightarrow> 'a iface list" where
  "objectLoop m [] = []"
| "objectLoop m (key # keys) = IString key # map_index m key # objectLoop m keys"

definition BuildJSONBObject :: "(string \<times> 'a iface) list \<Rightarrow> 'a JSONBBuilder" where
  "BuildJSONBObject m =
     (let keys = map fst m;
          keys = sort keys
      in \<lparr>Array = False, Bindings = objectLoop m keys\<rparr>)"

definition BuildJSONBArray :: "'a iface list \<Rightarrow> 'a JSONBBuilder" where
  "BuildJSONBArray xs = \<lparr>Array = True, Bindings = [] @ xs\<rparr>"

text \<open>The nesting depth of a value: what decreases along the recursion of \<^verbatim>\<open>Parse\<close>.\<close>

fun depth :: "'a iface \<Rightarrow> nat" and depths :: "'a iface list \<Rightarrow> nat"
  and depthm :: "(string \<times> 'a iface) list \<Rightarrow> nat" where
  "depth INil = 0"
| "depth (IString s) = 0"
| "depth (IScalar x) = 0"
| "depth (IMap m) = Suc (depthm m)"
| "depth (ISlice xs) = Suc (depths xs)"
| "depths [] = 0"
| "depths (v # vs) = max (depth v) (depths vs)"
| "depthm [] = 0"
| "depthm (kv # m) = max (depth (snd kv)) (depthm m)"

text \<open>
  \<^verbatim>\<open>Parse\<close> and its loop over \<^verbatim>\<open>b.Bindings\<close>. The loop returns the placeholders
  and the bindings it appended, in order.
\<close>

function (sequential) Parse :: "'a JSONBBuilder \<Rightarrow> string \<times> 'a iface list"
  and ParseLoop :: "'a iface list \<Rightarrow> string list \<times> 'a iface list" where
  "Parse b =
     (let asSQL = ''jsonb_build_'';
          asSQL = (if Array b then asSQL @ ''array('' else asSQL @ ''object('')
      in case ParseLoop (Bindings b) of (placeholders, bindings) \<Rightarrow>
           (asSQL @ strings_Join placeholders '', '' @ '')'', bindings))"
| "ParseLoop [] = ([], [])"
| "ParseLoop (IMap object # rest) =
     (case Parse (BuildJSONBObject object) of (subSQL, subBindings) \<Rightarrow>
      case ParseLoop rest of (placeholders, bindings) \<Rightarrow>
        (subSQL # placeholders, subBindings @ bindings))"
| "ParseLoop (ISlice array # rest) =
     (case Parse (BuildJSONBArray array) of (subSQL, subBindings) \<Rightarrow>
      case ParseLoop rest of (placeholders, bindings) \<Rightarrow>
        (subSQL # placeholders, subBindings @ bindings))"
| "ParseLoop (val # rest) =
     (case ParseLoop rest of (placeholders, bindings) \<Rightarrow>
        (''?'' # placeholders, val # bindings))"
  by pat_completeness auto

lemma depth_map_of: "map_of m key = Some v \<Longrightarrow> depth v \<le> depthm m"
  by (induction m) (auto split: if_splits)

lemma depth_map_index: "depth (map_index m key) \<le> depthm m"
  by (simp add: map_index_def depth_map_of split: option.split)

lemma depths_objectLoop: "depths (objectLoop m keys) \<le> depthm m"
  by (induction keys) (auto simp: depth_map_index)

termination Parse
  apply (relation "inv_image (less_than <*lex*> less_than)
     (\<lambda>x. case x of Inl b \<Rightarrow> (depths (Bindings b), Suc (length (Bindings b)))
                   | Inr vs \<Rightarrow> (depths vs, length vs))")
  apply (auto simp: BuildJSONBObject_def BuildJSONBArray_def less_Suc_eq_le
      depths_objectLoop less_max_iff_disj)
  done

section \<open>The SELECT statement builder\<close>

subsection \<open>Data\<close>

text \<open>
  \<^verbatim>\<open>JoinType\<close> is a Go \<^verbatim>\<open>int\<close>; no arithmetic is done on it, it is only used as an
  index. \<^verbatim>\<open>LockStrength\<close> and \<^verbatim>\<open>LockWait\<close> are \<^verbatim>\<open>int8\<close>, the limit and the
  offsets are \<^verbatim>\<open>int64\<close> (compared as signed numbers).
\<close>

type_synonym JoinType = int

definition InnerJoin :: JoinType where "InnerJoin = 0"
definition LeftJoin :: JoinType where "LeftJoin = 1"
definition RightJoin :: JoinType where "RightJoin = 2"
definition FullJoin :: JoinType where "FullJoin = 3"

type_synonym LockStrength = "8 word"

definition LockForUpdate :: LockStrength where "LockForUpdate = 0"
definition LockForNoKeyUpdate :: LockStrength where "LockForNoKeyUpdate = 1"
definition LockForShare :: LockStrength where "LockForShare = 2"
definition LockForKeyShare :: LockStrength where "LockForKeyShare = 3"

type_synonym LockWait = "8 word"

definition LockDefault :: LockWait where "LockDefault = 0"
definition LockNoWait :: LockWait where "LockNoWait = 1"
definition LockSkipLocked :: LockWait where "LockSkipLocked = 2"

lemmas enumerations =
  InnerJoin_def LeftJoin_def RightJoin_def FullJoin_def
  LockForUpdate_def LockForNoKeyUpdate_def LockForShare_def LockForKeyShare_def
  LockDefault_def LockNoWait_def LockSkipLocked_def

record LockClause =
  Strength :: LockStrength
  Tables :: "string list"
  Wait :: LockWait

record OrderColumn =
  Column :: string
  Desc :: bool

text \<open>
  The \<^verbatim>\<open>queryer\<close> of a statement is an \<^verbatim>\<open>sqlx.Queryer\<close>: a database handle, a
  transaction, or anything else. Of a handle and a transaction the rendering uses
  \<^verbatim>\<open>Rebind\<close> only, the driver's rewriting of the placeholders, which belongs to sqlx:
  each carries it as an opaque function.
\<close>

datatype queryer = DB "string \<Rightarrow> string" | Tx "string \<Rightarrow> string" | OtherQueryer

text \<open>
  A statement and its joins. A join's \<^verbatim>\<open>ResultSet\<close> is a pointer to another statement,
  nil for a join on a plain table; a statement's \<^verbatim>\<open>Locks\<close> are pointers to lock
  clauses, and a pointer can be nil. A statement holds what its pointers point to: the
  statements reachable from a statement form a tree here, so a statement that is joined to
  itself (a cycle of pointers) has no counterpart, and neither has a write through a
  pointer that is shared between two statements. \<open>'c\<close> is the type of a \<^verbatim>\<open>WhereCondition\<close>, declared elsewhere in the
  package.
\<close>

datatype 'c SelectStmt = SelectStmt
  (IsDistinct: bool)
  (DistinctColumns: "string list")
  (Columns: "string list")
  (Table: string)
  (Joins: "'c JoinClause list")
  (Conditions: "'c list")
  (Ordering: "OrderColumn list")
  (Grouping: "string list")
  (GroupConditions: "'c list")
  (Locks: "LockClause option list")
  (LimitTo: "64 word")
  (OffsetFrom: "64 word")
  (OffsetRows: "64 word")
  (queryer: queryer)
and 'c JoinClause = JoinClause
  (Join_Type: JoinType)
  (Join_Table: string)
  (Join_ResultSet: "'c SelectStmt option")
  (Join_Conditions: "'c list")

subsection \<open>Assignments to the fields of a statement\<close>

fun set_IsDistinct :: "bool \<Rightarrow> 'c SelectStmt \<Rightarrow> 'c SelectStmt" where
  "set_IsDistinct v (SelectStmt isd dc cols tbl js conds ord grp gconds lks lim off offr q) =
     SelectStmt v dc cols tbl js conds ord grp gconds lks lim off offr q"

fun set_DistinctColumns :: "string list \<Rightarrow> 'c SelectStmt \<Rightarrow> 'c SelectStmt" where
  "set_DistinctColumns v (SelectStmt isd dc cols tbl js conds ord grp gconds lks lim off offr q) =
     SelectStmt isd v cols tbl js conds ord grp gconds lks lim off offr q"

fun set_Columns :: "string list \<Rightarrow> 'c SelectStmt \<Rightarrow> 'c SelectStmt" where
  "set_Columns v (SelectStmt isd dc cols tbl js conds ord grp gconds lks lim off offr q) =
     SelectStmt isd dc v tbl js conds ord grp gconds lks lim off offr q"

fun set_Table :: "string \<Rightarrow> 'c SelectStmt \<Rightarrow> 'c SelectStmt" where
  "set_Table v (SelectStmt isd dc cols tbl js conds ord grp gconds lks lim off offr q) =
     SelectStmt isd dc cols v js conds ord grp gconds lks lim off offr q"

fun set_Joins :: "'c JoinClause list \<Rightarrow> 'c SelectStmt \<Rightarrow> 'c SelectStmt" where
  "set_Joins v (SelectStmt isd dc cols tbl js conds ord grp gconds lks lim off offr q) =
     SelectStmt isd dc cols tbl v conds ord grp gconds lks lim off offr q"

fun set_Conditions :: "'c list \<Rightarrow> 'c SelectStmt \<Rightarrow> 'c SelectStmt" where
  "set_Conditions v (SelectStmt isd dc cols tbl js conds ord grp gconds lks lim off offr q) =
     SelectStmt isd dc cols tbl js v ord grp gconds lks lim off offr q"

fun set_Ordering :: "OrderColumn list \<Rightarrow> 'c SelectStmt \<Rightarrow> 'c SelectStmt" where
  "set_Ordering v (SelectStmt isd dc cols tbl js conds ord grp gconds lks lim off offr q) =
     SelectStmt isd dc cols tbl js conds v grp gconds lks lim off offr q"

fun set_Grouping :: "string list \<Rightarrow> 'c SelectStmt \<Rightarrow> 'c SelectStmt" where
  "set_Grouping v (SelectStmt isd dc cols tbl js conds ord grp gconds lks lim off offr q) =
     SelectStmt isd dc cols tbl js conds ord v gconds lks lim off offr q"

fun set_GroupConditions :: "'c list \<Rightarrow> 'c SelectStmt \<Rightarrow> 'c SelectStmt" where
  "set_GroupConditions v (SelectStmt isd dc cols tbl js conds ord grp gconds lks lim off offr q) =
     SelectStmt isd dc cols tbl js conds ord grp v lks lim off offr q"

fun set_Locks :: "LockClause option list \<Rightarrow> 'c SelectStmt \<Rightarrow> 'c SelectStmt" where
  "set_Locks v (SelectStmt isd dc cols tbl js conds ord grp gconds lks lim off offr q) =
     SelectStmt isd dc cols tbl js conds ord grp gconds v lim off offr q"

fun set_LimitTo :: "64 word \<Rightarrow> 'c SelectStmt \<Rightarrow> 'c SelectStmt" where
  "set_LimitTo v (SelectStmt isd dc cols tbl js conds ord grp gconds lks lim off offr q) =
     SelectStmt isd dc cols tbl js conds ord grp gconds lks v off offr q"

fun set_OffsetFrom :: "64 word \<Rightarrow> 'c SelectStmt \<Rightarrow> 'c SelectStmt" where
  "set_OffsetFrom v (SelectStmt isd dc cols tbl js conds ord grp gconds lks lim off offr q) =
     SelectStmt isd dc cols tbl js conds ord grp gconds lks lim v offr q"

fun set_OffsetRows :: "64 word \<Rightarrow> 'c SelectStmt \<Rightarrow> 'c SelectStmt" where
  "set_OffsetRows v (SelectStmt isd dc cols tbl js conds ord grp gconds lks lim off offr q) =
     SelectStmt isd dc cols tbl js conds ord grp gconds lks lim off v q"

fun set_Join_ResultSet :: "'c SelectStmt option \<Rightarrow> 'c JoinClause \<Rightarrow> 'c JoinClause" where
  "set_Join_ResultSet v (JoinClause joinType table resultSet conds) =
     JoinClause joinType table v conds"

subsection \<open>The configuration methods\<close>

text \<open>
  A method on \<^verbatim>\<open>*SelectStmt\<close> that assigns to the receiver and returns it takes the
  statement and returns the statement as the assignments leave it. A variadic parameter is
  a list.
\<close>

definition Select :: "queryer \<Rightarrow> string list \<Rightarrow> 'c SelectStmt" where
  "Select q cols = SelectStmt False [] ([] @ cols) [] [] [] [] [] [] [] 0 0 0 q"

definition Distinct :: "string list \<Rightarrow> 'c SelectStmt \<Rightarrow> 'c SelectStmt" where
  "Distinct cols stmt =
     (let stmt = set_DistinctColumns ([] @ cols) stmt;
          stmt = set_IsDistinct True stmt
      in stmt)"

definition From :: "string \<Rightarrow> 'c SelectStmt \<Rightarrow> 'c SelectStmt" where
  "From table stmt = set_Table table stmt"

definition Join ::
  "JoinType \<Rightarrow> string \<Rightarrow> 'c SelectStmt option \<Rightarrow> 'c list \<Rightarrow> 'c SelectStmt \<Rightarrow> 'c SelectStmt" where
  "Join joinType table resultSet conds stmt =
     set_Joins (Joins stmt @ [JoinClause joinType table resultSet ([] @ conds)]) stmt"

definition Where :: "'c list \<Rightarrow> 'c SelectStmt \<Rightarrow> 'c SelectStmt" where
  "Where conditions stmt = set_Conditions (Conditions stmt @ conditions) stmt"

definition OrderBy :: "OrderColumn list \<Rightarrow> 'c SelectStmt \<Rightarrow> 'c SelectStmt" where
  "OrderBy cols stmt = set_Ordering (Ordering stmt @ cols) stmt"

definition GroupBy :: "string list \<Rightarrow> 'c SelectStmt \<Rightarrow> 'c SelectStmt" where
  "GroupBy cols stmt = set_Grouping (Grouping stmt @ cols) stmt"

definition Having :: "'c list \<Rightarrow> 'c SelectStmt \<Rightarrow> 'c SelectStmt" where
  "Having conditions stmt = set_GroupConditions (GroupConditions stmt @ conditions) stmt"

definition Limit :: "64 word \<Rightarrow> 'c SelectStmt \<Rightarrow> 'c SelectStmt" where
  "Limit limit stmt = set_LimitTo limit stmt"

definition Offset :: "64 word \<Rightarrow> 64 word list \<Rightarrow> 'c SelectStmt \<Rightarrow> 'c SelectStmt" where
  "Offset start rows stmt =
     (let stmt = set_OffsetFrom start stmt
      in if length rows > 0 then set_OffsetRows (hd rows) stmt else stmt)"

definition Lock :: "LockClause option \<Rightarrow> 'c SelectStmt \<Rightarrow> 'c SelectStmt" where
  "Lock lock stmt = set_Locks (Locks stmt @ [lock]) stmt"

definition ForUpdate :: "LockClause option" where
  "ForUpdate = Some \<lparr>Strength = LockForUpdate, Tables = [], Wait = LockDefault\<rparr>"

definition ForNoKeyUpdate :: "LockClause option" where
  "ForNoKeyUpdate = Some \<lparr>Strength = LockForNoKeyUpdate, Tables = [], Wait = LockDefault\<rparr>"

definition ForShare :: "LockClause option" where
  "ForShare = Some \<lparr>Strength = LockForShare, Tables = [], Wait = LockDefault\<rparr>"

definition ForKeyShare :: "LockClause option" where
  "ForKeyShare = Some \<lparr>Strength = LockForKeyShare, Tables = [], Wait = LockDefault\<rparr>"

subsection \<open>Rendering\<close>

text \<open>
  \<^verbatim>\<open>JoinType.String\<close> indexes a slice of four names: Go panics on an index that is
  negative or beyond the last element.
\<close>

definition JoinType_String :: "JoinType \<Rightarrow> error + string" where
  "JoinType_String j =
     (if 0 \<le> j \<and> j < 4 then Inr ([''INNER'', ''LEFT'', ''RIGHT'', ''FULL''] ! nat j @ '' JOIN'')
      else Inl IndexOutOfRange)"

definition OrderColumn_ToSQL :: "OrderColumn \<Rightarrow> string" where
  "OrderColumn_ToSQL oc =
     (let str = Column oc
      in if Desc oc then str @ '' DESC'' else str @ '' ASC'')"

text \<open>The loop over \<^verbatim>\<open>stmt.Ordering\<close>, collecting the rendered columns.\<close>

fun orderingLoop :: "OrderColumn list \<Rightarrow> string list" where
  "orderingLoop [] = []"
| "orderingLoop (order # rest) = OrderColumn_ToSQL order # orderingLoop rest"

text \<open>
  The body of the loop over \<^verbatim>\<open>stmt.Locks\<close>, for a lock that is not nil: the text it
  writes to the buffer. An unknown strength takes the \<^verbatim>\<open>default: continue\<close> branch, which
  writes nothing.
\<close>

definition lockStrength :: "LockStrength \<Rightarrow> string option" where
  "lockStrength s =
     (if s = LockForUpdate then Some ''FOR UPDATE''
      else if s = LockForNoKeyUpdate then Some ''FOR NO KEY UPDATE''
      else if s = LockForShare then Some ''FOR SHARE''
      else if s = LockForKeyShare then Some ''FOR KEY SHARE''
      else None)"

definition lockBody :: "LockClause \<Rightarrow> string" where
  "lockBody lock =
     (case lockStrength (Strength lock) of
        None \<Rightarrow> []
      | Some strength \<Rightarrow>
          (let buf = '' '' @ strength;
               buf = (if length (Tables lock) > 0
                      then buf @ '' OF '' @ strings_Join (Tables lock) '', '' else buf);
               buf = (if Wait lock = LockNoWait then buf @ '' NOWAIT''
                      else if Wait lock = LockSkipLocked then buf @ '' SKIP LOCKED''
                      else buf)
           in buf))"

text \<open>
  The loop over \<^verbatim>\<open>stmt.Locks\<close>: the text written for all of them, or the panic of
  reading \<^verbatim>\<open>lock.Strength\<close> through a nil pointer.
\<close>

fun locksLoop :: "LockClause option list \<Rightarrow> error + string" where
  "locksLoop [] = Inr []"
| "locksLoop (None # rest) = Inl NilPointerDereference"
| "locksLoop (Some lock # rest) =
     (case locksLoop rest of
        Inl e \<Rightarrow> Inl e
      | Inr restSQL \<Rightarrow> Inr (lockBody lock @ restSQL))"

text \<open>The last block of \<^verbatim>\<open>ToSQL\<close>: the type switch on the queryer.\<close>

definition rebindSQL :: "bool \<Rightarrow> queryer \<Rightarrow> string \<Rightarrow> string" where
  "rebindSQL rebind q asSQL =
     (if rebind then
        (case q of DB Rebind \<Rightarrow> Rebind asSQL | Tx Rebind \<Rightarrow> Rebind asSQL | OtherQueryer \<Rightarrow> asSQL)
      else asSQL)"

text \<open>
  The blocks of \<^verbatim>\<open>ToSQL\<close>, in the order of the source: each gives the text it writes
  to the buffer (\<^verbatim>\<open>buf.WriteString\<close> appends), and the blocks of the two condition lists
  also the bindings they append. \<open>parseConditions\<close> is a function of the package that is
  declared in another file: it is a parameter here, giving the SQL text and the bindings
  of a list of conditions.
\<close>

definition writeSelect :: "bool \<Rightarrow> string list \<Rightarrow> string list \<Rightarrow> string \<Rightarrow> string" where
  "writeSelect isDistinct distinctColumns columns table =
     (let buf = ''SELECT'';
          buf = (if isDistinct then
                   (let buf = buf @ '' DISTINCT''
                    in if length distinctColumns > 0
                       then buf @ '' ON ('' @ strings_Join distinctColumns '', '' @ '')''
                       else buf)
                 else buf);
          buf = (if length columns = 0 then buf @ '' *''
                 else buf @ '' '' @ strings_Join columns '', '')
      in buf @ '' FROM '' @ table)"

definition writeWhere :: "('c list \<Rightarrow> string \<times> 'b list) \<Rightarrow> 'c list \<Rightarrow> string \<times> 'b list" where
  "writeWhere parseConditions conditions =
     (if length conditions > 0 then
        (case parseConditions conditions of (whereClause, whereBindings) \<Rightarrow>
           ('' WHERE '' @ whereClause, whereBindings))
      else ([], []))"

definition writeGroupBy :: "string list \<Rightarrow> string" where
  "writeGroupBy grouping =
     (if length grouping > 0 then '' GROUP BY '' @ strings_Join grouping '', '' else [])"

definition writeHaving :: "('c list \<Rightarrow> string \<times> 'b list) \<Rightarrow> 'c list \<Rightarrow> string \<times> 'b list" where
  "writeHaving parseConditions groupConditions =
     (if length groupConditions > 0 then
        (case parseConditions groupConditions of (groupByClause, groupBindings) \<Rightarrow>
           ('' HAVING '' @ groupByClause, groupBindings))
      else ([], []))"

definition writeOrderBy :: "OrderColumn list \<Rightarrow> string" where
  "writeOrderBy orderCols =
     (if length orderCols > 0
      then '' ORDER BY '' @ strings_Join (orderingLoop orderCols) '', '' else [])"

definition writeLimit :: "64 word \<Rightarrow> string" where
  "writeLimit limitTo =
     (if 0 <s limitTo then '' LIMIT '' @ Sprintf_d (sint limitTo) else [])"

definition writeOffset :: "64 word \<Rightarrow> 64 word \<Rightarrow> string" where
  "writeOffset offsetFrom offsetRows =
     (if 0 <s offsetFrom then
        (let offset = Sprintf_d (sint offsetFrom);
             offset = (if 0 <s offsetRows then offset @ '' '' @ Sprintf_d (sint offsetRows)
                       else offset)
         in '' OFFSET '' @ offset)
      else [])"

text \<open>
  \<^verbatim>\<open>ToSQL\<close> and its loop over \<^verbatim>\<open>stmt.Joins\<close>. The loop returns the text it wrote
  to the buffer and the bindings it appended. A panic (\<open>Inl\<close>) ends the rendering where it
  happens: the joins are rendered before the locks, and in a join the sub-statement is
  rendered before the join type is looked up.
\<close>

fun ToSQL :: "('c list \<Rightarrow> string \<times> 'b list) \<Rightarrow> bool \<Rightarrow> 'c SelectStmt \<Rightarrow> error + (string \<times> 'b list)"
  and joinsLoop :: "('c list \<Rightarrow> string \<times> 'b list) \<Rightarrow> 'c JoinClause list \<Rightarrow> error + (string \<times> 'b list)"
  where
  "ToSQL parseConditions rebind
     (SelectStmt isDistinct distinctColumns columns table joins conditions orderCols grouping
        groupConditions locks limitTo offsetFrom offsetRows q) =
     (case joinsLoop parseConditions joins of
        Inl e \<Rightarrow> Inl e
      | Inr (joinsSQL, joinsBindings) \<Rightarrow>
          (case locksLoop locks of
             Inl e \<Rightarrow> Inl e
           | Inr locksSQL \<Rightarrow>
               (let buf = writeSelect isDistinct distinctColumns columns table;
                    buf = buf @ joinsSQL;
                    bindings = [] @ joinsBindings;
                    bindings = bindings @ snd (writeWhere parseConditions conditions);
                    buf = buf @ fst (writeWhere parseConditions conditions);
                    buf = buf @ writeGroupBy grouping;
                    bindings = bindings @ snd (writeHaving parseConditions groupConditions);
                    buf = buf @ fst (writeHaving parseConditions groupConditions);
                    buf = buf @ writeOrderBy orderCols;
                    buf = buf @ writeLimit limitTo;
                    buf = buf @ writeOffset offsetFrom offsetRows;
                    buf = buf @ locksSQL;
                    asSQL = buf;
                    asSQL = rebindSQL rebind q asSQL
                in Inr (asSQL, bindings))))"
| "joinsLoop parseConditions [] = Inr ([], [])"
| "joinsLoop parseConditions (JoinClause joinType table resultSet conds # rest) =
     (case parseConditions conds of (onClause, joinBindings) \<Rightarrow>
      case (case resultSet of
              Some rs \<Rightarrow>
                (case ToSQL parseConditions False rs of
                   Inl e \<Rightarrow> Inl e
                 | Inr (rsSQL, rsBindings) \<Rightarrow>
                     (case JoinType_String joinType of
                        Inl e \<Rightarrow> Inl e
                      | Inr typeString \<Rightarrow>
                          Inr ('' '' @ typeString @ '' ('' @ rsSQL @ '') '' @ table @ '' ON '' @ onClause,
                               rsBindings)))
            | None \<Rightarrow>
                (case JoinType_String joinType of
                   Inl e \<Rightarrow> Inl e
                 | Inr typeString \<Rightarrow>
                     Inr ('' '' @ typeString @ '' '' @ table @ '' ON '' @ onClause, [])))
      of Inl e \<Rightarrow> Inl e
       | Inr (clause, bindings) \<Rightarrow>
           (let bindings = bindings @ joinBindings
            in case joinsLoop parseConditions rest of
                 Inl e \<Rightarrow> Inl e
               | Inr (restSQL, restBindings) \<Rightarrow> Inr (clause @ restSQL, bindings @ restBindings)))"

subsection \<open>Rendering, with the memory of the receiver\<close>

text \<open>
  \<^verbatim>\<open>ToSQL\<close> has a pointer receiver, and a join hands the pointer \<^verbatim>\<open>join.ResultSet\<close> to
  the recursive call: the code could write to the statement and to its sub-statements.
  \<open>ToSQL_st\<close> is \<^verbatim>\<open>ToSQL\<close> again, statement by statement, with that memory passed
  along: it takes the statement, reads every field from the statement as it is at that
  point, and returns with its result the statement as the call leaves it, also when it
  panics. A sub-statement is left by the recursive call behind the pointer of its join, so
  the join holds what the call returns. The loop variable \<^verbatim>\<open>join\<close> is a copy of the
  element; \<^verbatim>\<open>buf\<close>, \<^verbatim>\<open>asSQL\<close> and \<^verbatim>\<open>bindings\<close> are locals (\<^verbatim>\<open>bindings\<close> starts as
  the nil slice, so appending to it writes to an array of its own). \<open>parseConditions\<close>
  receives the condition slices; it is taken to read them only.
\<close>

lemma size_Joins: "size_list size (Joins s) < size s"
  by (cases s) simp

lemma size_Join_ResultSet: "Join_ResultSet j = Some rs \<Longrightarrow> size rs < size j"
  by (cases j) simp

function ToSQL_st ::
    "('c list \<Rightarrow> string \<times> 'b list) \<Rightarrow> bool \<Rightarrow> 'c SelectStmt
      \<Rightarrow> (error + (string \<times> 'b list)) \<times> 'c SelectStmt"
  and joinsLoop_st ::
    "('c list \<Rightarrow> string \<times> 'b list) \<Rightarrow> 'c JoinClause list
      \<Rightarrow> (error + (string \<times> 'b list)) \<times> 'c JoinClause list"
  where
  "ToSQL_st parseConditions rebind stmt =
     (let buf = writeSelect (IsDistinct stmt) (DistinctColumns stmt) (Columns stmt) (Table stmt)
      in case joinsLoop_st parseConditions (Joins stmt) of
           (Inl e, joins) \<Rightarrow> (Inl e, set_Joins joins stmt)
         | (Inr (joinsSQL, joinsBindings), joins) \<Rightarrow>
             (let stmt = set_Joins joins stmt;
                  buf = buf @ joinsSQL;
                  bindings = [] @ joinsBindings;
                  bindings = bindings @ snd (writeWhere parseConditions (Conditions stmt));
                  buf = buf @ fst (writeWhere parseConditions (Conditions stmt));
                  buf = buf @ writeGroupBy (Grouping stmt);
                  bindings = bindings @ snd (writeHaving parseConditions (GroupConditions stmt));
                  buf = buf @ fst (writeHaving parseConditions (GroupConditions stmt));
                  buf = buf @ writeOrderBy (Ordering stmt);
                  buf = buf @ writeLimit (LimitTo stmt);
                  buf = buf @ writeOffset (OffsetFrom stmt) (OffsetRows stmt)
              in case locksLoop (Locks stmt) of
                   Inl e \<Rightarrow> (Inl e, stmt)
                 | Inr locksSQL \<Rightarrow>
                     (let buf = buf @ locksSQL;
                          asSQL = buf;
                          asSQL = rebindSQL rebind (queryer stmt) asSQL
                      in (Inr (asSQL, bindings), stmt))))"
| "joinsLoop_st parseConditions [] = (Inr ([], []), [])"
| "joinsLoop_st parseConditions (join # rest) =
     (case parseConditions (Join_Conditions join) of (onClause, joinBindings) \<Rightarrow>
      case Join_ResultSet join of
        Some rs \<Rightarrow>
          (case ToSQL_st parseConditions False rs of
             (Inl e, rs) \<Rightarrow> (Inl e, set_Join_ResultSet (Some rs) join # rest)
           | (Inr (rsSQL, rsBindings), rs) \<Rightarrow>
               (let join = set_Join_ResultSet (Some rs) join
                in case JoinType_String (Join_Type join) of
                     Inl e \<Rightarrow> (Inl e, join # rest)
                   | Inr typeString \<Rightarrow>
                       (let clause = '' '' @ typeString @ '' ('' @ rsSQL @ '') '' @ Join_Table join
                                     @ '' ON '' @ onClause;
                            bindings = rsBindings @ joinBindings
                        in case joinsLoop_st parseConditions rest of
                             (Inl e, rest) \<Rightarrow> (Inl e, join # rest)
                           | (Inr (restSQL, restBindings), rest) \<Rightarrow>
                               (Inr (clause @ restSQL, bindings @ restBindings), join # rest))))
      | None \<Rightarrow>
          (case JoinType_String (Join_Type join) of
             Inl e \<Rightarrow> (Inl e, join # rest)
           | Inr typeString \<Rightarrow>
               (let clause = '' '' @ typeString @ '' '' @ Join_Table join @ '' ON '' @ onClause;
                    bindings = [] @ joinBindings
                in case joinsLoop_st parseConditions rest of
                     (Inl e, rest) \<Rightarrow> (Inl e, join # rest)
                   | (Inr (restSQL, restBindings), rest) \<Rightarrow>
                       (Inr (clause @ restSQL, bindings @ restBindings), join # rest))))"
  by pat_completeness auto

termination ToSQL_st
  apply (relation "measure (\<lambda>x. case x of Inl (pc, rb, s) \<Rightarrow> size s
                                  | Inr (pc, js) \<Rightarrow> size_list size js)")
  apply (auto simp: size_Joins dest: size_Join_ResultSet)
  done

subsection \<open>Execution helpers\<close>

text \<open>
  \<^verbatim>\<open>GetRow\<close> renders the statement with placeholders rebound and hands the queryer, the
  text and the bindings to \<^verbatim>\<open>sqlx.Get\<close>, which is a parameter here (\<open>get\<close>): what it
  answers is the result. The statement is not handed to it. Like \<open>ToSQL_st\<close>,
  \<^verbatim>\<open>GetRow\<close> and \<^verbatim>\<open>GetCount\<close> return with their result the receiver as the call leaves
  it.
\<close>

definition GetRow ::
  "('c list \<Rightarrow> string \<times> 'b list) \<Rightarrow> (queryer \<Rightarrow> string \<Rightarrow> 'b list \<Rightarrow> 'r) \<Rightarrow> 'c SelectStmt
    \<Rightarrow> (error + 'r) \<times> 'c SelectStmt" where
  "GetRow parseConditions get stmt =
     (case ToSQL_st parseConditions True stmt of
        (Inl e, stmt) \<Rightarrow> (Inl e, stmt)
      | (Inr (asSQL, bindings), stmt) \<Rightarrow> (Inr (get (queryer stmt) asSQL bindings), stmt))"

text \<open>
  \<^verbatim>\<open>GetCount\<close> copies the struct into the local \<^verbatim>\<open>countStmt\<close>, assigns to five fields
  of the copy and calls \<^verbatim>\<open>GetRow\<close> on the copy. The copy and the receiver are two
  structs; they share the memory behind the slices that the copy was not assigned anew
  and behind the pointers in them. So the receiver is left with its own fields, and with
  those slices as the call on the copy leaves them.
\<close>

definition GetCount ::
  "('c list \<Rightarrow> string \<times> 'b list) \<Rightarrow> (queryer \<Rightarrow> string \<Rightarrow> 'b list \<Rightarrow> 'r) \<Rightarrow> 'c SelectStmt
    \<Rightarrow> (error + 'r) \<times> 'c SelectStmt" where
  "GetCount parseConditions get stmt =
     (let countStmt = stmt;
          countStmt = set_Columns [''COUNT(*)''] countStmt;
          countStmt = set_LimitTo 0 countStmt;
          countStmt = set_OffsetFrom 0 countStmt;
          countStmt = set_OffsetRows 0 countStmt;
          countStmt = set_Ordering [] countStmt
      in case GetRow parseConditions get countStmt of
           (result, countStmt) \<Rightarrow>
             (let stmt = set_DistinctColumns (DistinctColumns countStmt) stmt;
                  stmt = set_Joins (Joins countStmt) stmt;
                  stmt = set_Conditions (Conditions countStmt) stmt;
                  stmt = set_Grouping (Grouping countStmt) stmt;
                  stmt = set_GroupConditions (GroupConditions countStmt) stmt;
                  stmt = set_Locks (Locks countStmt) stmt
              in (result, stmt)))"

text \<open>The value of the local \<^verbatim>\<open>countStmt\<close> when \<^verbatim>\<open>GetCount\<close> calls \<^verbatim>\<open>GetRow\<close>.\<close>

definition countStmt :: "'c SelectStmt \<Rightarrow> 'c SelectStmt" where
  "countStmt stmt =
     (let countStmt = stmt;
          countStmt = set_Columns [''COUNT(*)''] countStmt;
          countStmt = set_LimitTo 0 countStmt;
          countStmt = set_OffsetFrom 0 countStmt;
          countStmt = set_OffsetRows 0 countStmt;
          countStmt = set_Ordering [] countStmt
      in countStmt)"

section \<open>Reference notions for the claims\<close>

text \<open>
  What it means that the placeholders of a text correspond to a list of bindings by
  position: \<open>fill lit sql bindings\<close> is the text with its first \<^verbatim>\<open>?\<close> replaced by the
  literal of the first binding, its second by the literal of the second, and so on
  (\<open>lit\<close> writes a value as a literal). \<open>inlined lit b\<close> is the expression of a builder
  with every value written in place as a literal, nested objects and arrays in place as
  sub-expressions. Rendering with placeholders is right when filling its text with its
  bindings gives the inlined expression.
\<close>

fun fill :: "('v \<Rightarrow> string) \<Rightarrow> string \<Rightarrow> 'v list \<Rightarrow> string" where
  "fill lit [] bs = []"
| "fill lit (c # cs) bs =
     (if c = CHR ''?'' then
        (case bs of [] \<Rightarrow> c # fill lit cs [] | b # bs' \<Rightarrow> lit b @ fill lit cs bs')
      else c # fill lit cs bs)"

function (sequential) inlined :: "('a iface \<Rightarrow> string) \<Rightarrow> 'a JSONBBuilder \<Rightarrow> string"
  and inlinedLoop :: "('a iface \<Rightarrow> string) \<Rightarrow> 'a iface list \<Rightarrow> string list" where
  "inlined lit b =
     ''jsonb_build_'' @ (if Array b then ''array('' else ''object('')
     @ strings_Join (inlinedLoop lit (Bindings b)) '', '' @ '')''"
| "inlinedLoop lit [] = []"
| "inlinedLoop lit (IMap object # rest) =
     inlined lit (BuildJSONBObject object) # inlinedLoop lit rest"
| "inlinedLoop lit (ISlice array # rest) =
     inlined lit (BuildJSONBArray array) # inlinedLoop lit rest"
| "inlinedLoop lit (val # rest) = lit val # inlinedLoop lit rest"
  by pat_completeness auto

termination inlined
  apply (relation "inv_image (less_than <*lex*> less_than)
     (\<lambda>x. case x of Inl (lit, b) \<Rightarrow> (depths (Bindings b), Suc (length (Bindings b)))
                   | Inr (lit, vs) \<Rightarrow> (depths vs, length vs))")
  apply (auto simp: BuildJSONBObject_def BuildJSONBArray_def less_Suc_eq_le
      depths_objectLoop less_max_iff_disj)
  done

text \<open>
  What the loop of \<^verbatim>\<open>Parse\<close> keeps: the bindings are the segments of the placeholders
  one after the other, each placeholder text holds as many \<^verbatim>\<open>?\<close> as its segment has
  bindings, and filling it with its segment gives the inlined text of its value.
\<close>

inductive aligned :: "('v \<Rightarrow> string) \<Rightarrow> string list \<Rightarrow> 'v list \<Rightarrow> string list \<Rightarrow> bool"
  for lit :: "'v \<Rightarrow> string" where
  aligned_Nil: "aligned lit [] [] []"
| aligned_Cons: "count_list p (CHR ''?'') = length seg \<Longrightarrow> fill lit p seg = t \<Longrightarrow>
     aligned lit ps bs ts \<Longrightarrow> aligned lit (p # ps) (seg @ bs) (t # ts)"

text \<open>
  Two values are the same logical value when they are equal up to the order in which the
  maps in them list their entries, at every depth: the same keys, and under each key the
  same logical value.
\<close>

inductive same_value :: "'a iface \<Rightarrow> 'a iface \<Rightarrow> bool" where
  same_INil: "same_value INil INil"
| same_IString: "same_value (IString s) (IString s)"
| same_IScalar: "same_value (IScalar x) (IScalar x)"
| same_ISlice: "list_all2 same_value xs ys \<Longrightarrow> same_value (ISlice xs) (ISlice ys)"
| same_IMap: "distinct (map fst m1) \<Longrightarrow> distinct (map fst m2) \<Longrightarrow>
     fst ` set m1 = fst ` set m2 \<Longrightarrow>
     (\<forall>key \<in> fst ` set m1. same_value (map_index m1 key) (map_index m2 key)) \<Longrightarrow>
     same_value (IMap m1) (IMap m2)"

inductive_cases same_INilE: "same_value INil v"
inductive_cases same_IStringE: "same_value (IString s) v"
inductive_cases same_IScalarE: "same_value (IScalar x) v"
inductive_cases same_ISliceE: "same_value (ISlice xs) v"
inductive_cases same_IMapE: "same_value (IMap m) v"

text \<open>
  The statements on which the rendering meets neither of its two panics: every join type
  is one of the four, no lock is nil, and the same holds of every embedded sub-statement.
\<close>

fun returns :: "'c SelectStmt \<Rightarrow> bool" and returnsJoins :: "'c JoinClause list \<Rightarrow> bool" where
  "returns (SelectStmt isDistinct distinctColumns columns table joins conditions orderCols
      grouping groupConditions locks limitTo offsetFrom offsetRows q) =
     (returnsJoins joins \<and> None \<notin> set locks)"
| "returnsJoins [] = True"
| "returnsJoins (JoinClause joinType table resultSet conds # rest) =
     ((case resultSet of Some rs \<Rightarrow> returns rs | None \<Rightarrow> True)
      \<and> 0 \<le> joinType \<and> joinType < 4 \<and> returnsJoins rest)"

text \<open>
  Instances of the parameters, for evaluating the definitions at concrete inputs: a
  condition is a column and a number and stands for \<^verbatim>\<open>column = ?\<close>, the conditions
  joined by \<^verbatim>\<open>AND\<close>; an executor that answers with the text and the bindings it is
  handed; a literal is written without quotes.
\<close>

definition eqConditions :: "(string \<times> nat) list \<Rightarrow> string \<times> nat list" where
  "eqConditions conds =
     (strings_Join (map (\<lambda>c. fst c @ '' = ?'') conds) '' AND '', map snd conds)"

definition echo :: "queryer \<Rightarrow> string \<Rightarrow> 'b list \<Rightarrow> string \<times> 'b list" where
  "echo q asSQL bindings = (asSQL, bindings)"

definition showLiteral :: "nat iface \<Rightarrow> string" where
  "showLiteral v =
     (case v of INil \<Rightarrow> ''NULL'' | IString s \<Rightarrow> s | IScalar n \<Rightarrow> digits n | _ \<Rightarrow> [])"

section \<open>Lemmas\<close>

declare Parse.simps [simp del] inlined.simps [simp del]

lemma fill_append:
  "count_list s1 (CHR ''?'') = length b1 \<Longrightarrow>
   fill lit (s1 @ s2) (b1 @ b2) = fill lit s1 b1 @ fill lit s2 b2"
proof (induction s1 arbitrary: b1)
  case Nil
  then show ?case by simp
next
  case (Cons c cs)
  show ?case
  proof (cases "c = CHR ''?''")
    case True
    with Cons.prems obtain a list where b1: "b1 = a # list" and "count_list cs (CHR ''?'') = length list"
      by (cases b1) auto
    with Cons.IH [of list] True show ?thesis by simp
  next
    case False
    with Cons.prems Cons.IH [of b1] show ?thesis by simp
  qed
qed

lemma fill_no_placeholder: "CHR ''?'' \<notin> set s \<Longrightarrow> fill lit s bs = s"
  by (induction s) auto

lemma strings_Join_Cons:
  "strings_Join (p # ps) sep = p @ (if ps = [] then [] else sep @ strings_Join ps sep)"
  by (cases ps) simp_all

lemma aligned_empty: "aligned lit ps bs ts \<Longrightarrow> (ps = [] \<longleftrightarrow> ts = []) \<and> (ps = [] \<longrightarrow> bs = [])"
  by (induction rule: aligned.induct) simp_all

lemma aligned_join:
  "aligned lit ps bs ts \<Longrightarrow>
   count_list (strings_Join ps '', '') (CHR ''?'') = length bs
   \<and> fill lit (strings_Join ps '', '') bs = strings_Join ts '', ''"
proof (induction rule: aligned.induct)
  case aligned_Nil
  show ?case by simp
next
  case (aligned_Cons p seg t ps bs ts)
  show ?case
  proof (cases "ps = []")
    case True
    with aligned_Cons aligned_empty [OF aligned_Cons.hyps(3)] show ?thesis
      by (simp add: strings_Join_Cons)
  next
    case False
    with aligned_empty [OF aligned_Cons.hyps(3)] have ts: "ts \<noteq> []" by simp
    from aligned_Cons.IH have cnt: "count_list (strings_Join ps '', '') (CHR ''?'') = length bs"
      and fl: "fill lit (strings_Join ps '', '') bs = strings_Join ts '', ''" by simp_all
    have "fill lit (p @ '', '' @ strings_Join ps '', '') (seg @ bs)
        = fill lit p seg @ fill lit ('', '' @ strings_Join ps '', '') bs"
      using aligned_Cons.hyps(1) by (rule fill_append)
    with False ts cnt fl aligned_Cons.hyps(1,2) show ?thesis
      by (simp add: strings_Join_Cons)
  qed
qed

lemma aligned_placeholder:
  "aligned lit ps bs ts \<Longrightarrow> aligned lit (''?'' # ps) (v # bs) (lit v # ts)"
  using aligned_Cons [of "''?''" "[v]" lit "lit v" ps bs ts] by simp

lemma Parse_aligned:
  "(case Parse b of (sql, bindings) \<Rightarrow>
      count_list sql (CHR ''?'') = length bindings \<and> fill lit sql bindings = inlined lit b)"
  and ParseLoop_aligned:
  "(case ParseLoop vals of (placeholders, bindings) \<Rightarrow>
      aligned lit placeholders bindings (inlinedLoop lit vals))"
proof (induction b and vals rule: Parse_ParseLoop.induct)
  case (1 b)
  obtain ps bs where loop: "ParseLoop (Bindings b) = (ps, bs)" by (cases "ParseLoop (Bindings b)")
  with 1 [OF refl refl] have al: "aligned lit ps bs (inlinedLoop lit (Bindings b))" by simp
  note j = aligned_join [OF al]
  have pre: "fill lit (hd @ x) bs = hd @ fill lit x bs"
    if "CHR ''?'' \<notin> set hd" for hd x
    using fill_append [of hd "[]" lit x bs] that by (simp add: fill_no_placeholder)
  have mid: "fill lit (strings_Join ps '', '' @ '')'') bs = fill lit (strings_Join ps '', '') bs @ '')''"
    using fill_append [of "strings_Join ps '', ''" bs lit "'')''" "[]"] j by simp
  show ?case
    using j pre [of "''jsonb_build_array(''"] pre [of "''jsonb_build_object(''"] mid
    by (simp add: Parse.simps [of b] inlined.simps [of lit b] loop Let_def)
next
  case 2
  show ?case by (simp add: aligned_Nil)
next
  case (3 object rest)
  then show ?case
    by (auto split: prod.splits intro: aligned_Cons)
next
  case (4 array rest)
  then show ?case
    by (auto split: prod.splits intro: aligned_Cons)
qed (auto split: prod.splits intro: aligned_placeholder)

lemma objectLoop_concat:
  "objectLoop m keys = concat (map (\<lambda>key. [IString key, map_index m key]) keys)"
  by (induction keys) simp_all

lemma objectLoop_cong:
  "(\<And>key. key \<in> set keys \<Longrightarrow> map_index m1 key = map_index m2 key) \<Longrightarrow>
   objectLoop m1 keys = objectLoop m2 keys"
  by (induction keys) simp_all

lemma same_objectLoop:
  "(\<forall>key \<in> set keys. same_value (map_index m1 key) (map_index m2 key)) \<Longrightarrow>
   list_all2 same_value (objectLoop m1 keys) (objectLoop m2 keys)"
  by (induction keys) (simp_all add: same_IString)

lemma same_keys:
  assumes "distinct (map fst m1)" and "distinct (map fst m2)" and "fst ` set m1 = fst ` set m2"
  shows "sort (map fst m1) = sort (map fst m2)"
proof -
  have "set (sort (map fst m1)) = set (sort (map fst m2))" using assms(3) by simp
  moreover have "distinct (sort (map fst m1))" "distinct (sort (map fst m2))"
    using assms(1,2) by simp_all
  ultimately show ?thesis
    by (intro sorted_distinct_set_unique) simp_all
qed

lemma same_BuildJSONBObject:
  assumes "same_value (IMap m1) (IMap m2)"
  shows "list_all2 same_value (Bindings (BuildJSONBObject m1)) (Bindings (BuildJSONBObject m2))"
  using assms
proof (cases rule: same_value.cases)
  case same_IMap
  then show ?thesis
    using same_keys [of m1 m2] same_objectLoop [of "sort (map fst m1)" m1 m2]
    by (simp add: BuildJSONBObject_def)
qed

lemma Parse_same_value:
  "Array (b1 :: 'a JSONBBuilder) = Array b2 \<Longrightarrow>
   list_all2 same_value (Bindings b1) (Bindings b2) \<Longrightarrow> Parse b1 = Parse b2"
  and ParseLoop_same_value:
  "list_all2 same_value (vals1 :: 'a iface list) vals2 \<Longrightarrow> ParseLoop vals1 = ParseLoop vals2"
proof (induction b1 and vals1 arbitrary: b2 and vals2 rule: Parse_ParseLoop.induct)
  case (1 b)
  from 1(1) [OF refl refl 1(3)] 1(2) show ?case
    by (simp add: Parse.simps [of b] Parse.simps [of b2] Let_def)
next
  case 2
  then show ?case by simp
next
  case (3 object rest)
  from 3(3) obtain v2 rest2 where vals2: "vals2 = v2 # rest2" and v: "same_value (IMap object) v2"
    and r: "list_all2 same_value rest rest2"
    by (cases vals2) auto
  from v obtain m2 where v2: "v2 = IMap m2" by (auto elim: same_IMapE)
  have "Parse (BuildJSONBObject object) = Parse (BuildJSONBObject m2)"
    using v unfolding v2
    by (intro 3(1) same_BuildJSONBObject) (simp_all add: BuildJSONBObject_def)
  moreover have "ParseLoop rest = ParseLoop rest2"
    using 3(2) r by (cases "Parse (BuildJSONBObject object)") auto
  ultimately show ?case by (simp add: vals2 v2)
next
  case (4 array rest)
  from 4(3) obtain v2 rest2 where vals2: "vals2 = v2 # rest2" and v: "same_value (ISlice array) v2"
    and r: "list_all2 same_value rest rest2"
    by (cases vals2) auto
  from v obtain ys where v2: "v2 = ISlice ys" and ys: "list_all2 same_value array ys"
    by (auto elim: same_ISliceE)
  have "Parse (BuildJSONBArray array) = Parse (BuildJSONBArray ys)"
    using ys by (intro 4(1)) (simp_all add: BuildJSONBArray_def)
  moreover have "ParseLoop rest = ParseLoop rest2"
    using 4(2) r by (cases "Parse (BuildJSONBArray array)") auto
  ultimately show ?case by (simp add: vals2 v2)
qed (auto simp: list_all2_Cons1 elim!: same_INilE same_IStringE same_IScalarE)

lemma sorted_keys_unique:
  assumes "distinct (map fst m1)" and "distinct (map fst m2)" and "set m1 = set m2"
  shows "sort (map fst m1) = sort (map fst m2)"
  using assms by (intro same_keys) simp_all

lemma ToSQL_fields:
  "ToSQL pc rb s =
     (case joinsLoop pc (Joins s) of
        Inl e \<Rightarrow> Inl e
      | Inr (joinsSQL, joinsBindings) \<Rightarrow>
          (case locksLoop (Locks s) of
             Inl e \<Rightarrow> Inl e
           | Inr locksSQL \<Rightarrow>
               Inr (rebindSQL rb (queryer s)
                      (writeSelect (IsDistinct s) (DistinctColumns s) (Columns s) (Table s)
                       @ joinsSQL @ fst (writeWhere pc (Conditions s)) @ writeGroupBy (Grouping s)
                       @ fst (writeHaving pc (GroupConditions s)) @ writeOrderBy (Ordering s)
                       @ writeLimit (LimitTo s) @ writeOffset (OffsetFrom s) (OffsetRows s)
                       @ locksSQL),
                    joinsBindings @ snd (writeWhere pc (Conditions s))
                    @ snd (writeHaving pc (GroupConditions s)))))"
  by (cases s) (simp add: Let_def split: sum.split prod.split)

lemma joinsLoop_append:
  "joinsLoop pc (js1 @ js2) =
     (case joinsLoop pc js1 of
        Inl e \<Rightarrow> Inl e
      | Inr (sql1, bs1) \<Rightarrow>
          (case joinsLoop pc js2 of
             Inl e \<Rightarrow> Inl e
           | Inr (sql2, bs2) \<Rightarrow> Inr (sql1 @ sql2, bs1 @ bs2)))"
proof (induction js1)
  case Nil
  show ?case by (simp split: sum.split prod.split)
next
  case (Cons j js1)
  obtain ty tbl rs conds where j: "j = JoinClause ty tbl rs conds" by (cases j)
  show ?case unfolding j using Cons.IH
    by (simp add: Let_def split: sum.split prod.split option.split)
qed

lemma locksLoop_append:
  "locksLoop (ls1 @ ls2) =
     (case locksLoop ls1 of
        Inl e \<Rightarrow> Inl e
      | Inr sql1 \<Rightarrow> (case locksLoop ls2 of Inl e \<Rightarrow> Inl e | Inr sql2 \<Rightarrow> Inr (sql1 @ sql2)))"
proof (induction ls1)
  case Nil
  show ?case by (simp split: sum.split)
next
  case (Cons l ls1)
  then show ?case by (cases l) (simp_all split: sum.split)
qed

lemma rebindSQL_False [simp]: "rebindSQL False q asSQL = asSQL"
  by (simp add: rebindSQL_def)

lemma Sprintf_d_5: "Sprintf_d 5 = ''5''" by code_simp
lemma Sprintf_d_2: "Sprintf_d 2 = ''2''" by code_simp
lemma Sprintf_d_7: "Sprintf_d 7 = ''7''" by code_simp

lemma lockBody_unknown:
  "Strength lock \<notin> {LockForUpdate, LockForNoKeyUpdate, LockForShare, LockForKeyShare}
   \<Longrightarrow> lockBody lock = []"
  by (simp add: lockBody_def lockStrength_def)

lemma locksLoop_skip:
  "lockBody lock = [] \<Longrightarrow> locksLoop (ls1 @ Some lock # ls2) = locksLoop (ls1 @ ls2)"
  by (simp add: locksLoop_append split: sum.split)

lemma ToSQL_set_Locks_cong:
  "locksLoop ls = locksLoop ls' \<Longrightarrow> ToSQL pc rb (set_Locks ls s) = ToSQL pc rb (set_Locks ls' s)"
  by (cases s) (simp split: sum.split prod.split)

lemma set_Locks_same: "set_Locks (Locks s) s = s"
  by (cases s) simp

lemma writeSelect_text:
  "writeSelect d dc cols t =
     ''SELECT''
     @ (if d then '' DISTINCT''
               @ (if dc = [] then [] else '' ON ('' @ strings_Join dc '', '' @ '')'')
        else [])
     @ (if cols = [] then '' *'' else '' '' @ strings_Join cols '', '')
     @ '' FROM '' @ t"
  by (simp add: writeSelect_def Let_def)

lemma writeWhere_text:
  "fst (writeWhere pc conds) = (if conds = [] then [] else '' WHERE '' @ fst (pc conds))"
  "snd (writeWhere pc conds) = (if conds = [] then [] else snd (pc conds))"
  by (simp_all add: writeWhere_def split: prod.split)

lemma writeHaving_text:
  "fst (writeHaving pc conds) = (if conds = [] then [] else '' HAVING '' @ fst (pc conds))"
  "snd (writeHaving pc conds) = (if conds = [] then [] else snd (pc conds))"
  by (simp_all add: writeHaving_def split: prod.split)

lemma writeGroupBy_text:
  "writeGroupBy g = (if g = [] then [] else '' GROUP BY '' @ strings_Join g '', '')"
  by (simp add: writeGroupBy_def)

lemma writeOrderBy_text:
  "writeOrderBy os =
     (if os = [] then [] else '' ORDER BY '' @ strings_Join (orderingLoop os) '', '')"
  by (simp add: writeOrderBy_def)

lemma writeLimit_text:
  "writeLimit l = (if 0 <s l then '' LIMIT '' @ Sprintf_d (sint l) else [])"
  by (simp add: writeLimit_def)

lemma ToSQL_text:
  assumes "joinsLoop pc (Joins s) = Inr (joinsSQL, joinsBindings)"
    and "locksLoop (Locks s) = Inr locksSQL"
  shows "ToSQL pc rb s =
     Inr (rebindSQL rb (queryer s)
            (''SELECT''
             @ (if IsDistinct s then
                  '' DISTINCT''
                  @ (if DistinctColumns s = [] then []
                     else '' ON ('' @ strings_Join (DistinctColumns s) '', '' @ '')'')
                else [])
             @ (if Columns s = [] then '' *'' else '' '' @ strings_Join (Columns s) '', '')
             @ '' FROM '' @ Table s
             @ joinsSQL
             @ (if Conditions s = [] then [] else '' WHERE '' @ fst (pc (Conditions s)))
             @ (if Grouping s = [] then [] else '' GROUP BY '' @ strings_Join (Grouping s) '', '')
             @ (if GroupConditions s = [] then []
                else '' HAVING '' @ fst (pc (GroupConditions s)))
             @ (if Ordering s = [] then []
                else '' ORDER BY '' @ strings_Join (orderingLoop (Ordering s)) '', '')
             @ (if 0 <s LimitTo s then '' LIMIT '' @ Sprintf_d (sint (LimitTo s)) else [])
             @ writeOffset (OffsetFrom s) (OffsetRows s)
             @ locksSQL),
          joinsBindings
          @ (if Conditions s = [] then [] else snd (pc (Conditions s)))
          @ (if GroupConditions s = [] then [] else snd (pc (GroupConditions s))))"
  unfolding ToSQL_fields assms writeSelect_text writeWhere_text writeHaving_text
    writeGroupBy_text writeOrderBy_text writeLimit_text
  by simp

lemma Offset_fields:
  "IsDistinct (Offset a rows s) = IsDistinct s"
  "DistinctColumns (Offset a rows s) = DistinctColumns s"
  "Columns (Offset a rows s) = Columns s"
  "Table (Offset a rows s) = Table s"
  "Joins (Offset a rows s) = Joins s"
  "Conditions (Offset a rows s) = Conditions s"
  "Ordering (Offset a rows s) = Ordering s"
  "Grouping (Offset a rows s) = Grouping s"
  "GroupConditions (Offset a rows s) = GroupConditions s"
  "Locks (Offset a rows s) = Locks s"
  "LimitTo (Offset a rows s) = LimitTo s"
  "queryer (Offset a rows s) = queryer s"
  "OffsetFrom (Offset a rows s) = a"
  "OffsetRows (Offset a rows s) = (if length rows > 0 then hd rows else OffsetRows s)"
  by (cases s; simp add: Offset_def Let_def)+

lemma locksLoop_returns: "(\<exists>sql. locksLoop locks = Inr sql) \<longleftrightarrow> None \<notin> set locks"
proof (induction locks)
  case Nil
  show ?case by simp
next
  case (Cons lock locks)
  then show ?case by (cases lock) (auto split: sum.splits)
qed

lemma ToSQL_returns_iff:
  "(\<exists>r. ToSQL pc rb (s :: 'c SelectStmt) = Inr r) \<longleftrightarrow> returns s"
  and joinsLoop_returns_iff:
  "(\<exists>r. joinsLoop pc (js :: 'c JoinClause list) = Inr r) \<longleftrightarrow> returnsJoins js"
proof (induction s and js arbitrary: rb rule: returns_returnsJoins.induct)
  case (1 isDistinct distinctColumns columns table joins conditions orderCols grouping
      groupConditions locks limitTo offsetFrom offsetRows q)
  then show ?case
    using locksLoop_returns [of locks]
    by (auto simp add: Let_def split: sum.splits prod.splits)
next
  case 2
  show ?case by simp
next
  case (3 joinType table resultSet conds rest)
  show ?case
  proof (cases resultSet)
    case None
    with 3(2) show ?thesis
      by (auto simp add: Let_def JoinType_String_def split: sum.splits prod.splits)
  next
    case (Some rs)
    with 3(1) [OF Some, of False] 3(2) show ?thesis
      by (auto simp add: Let_def JoinType_String_def split: sum.splits prod.splits)
  qed
qed

declare ToSQL_st.simps [simp del]

lemma set_Joins_same: "set_Joins (Joins s) s = s"
  by (cases s) simp

lemma set_Join_ResultSet_same: "set_Join_ResultSet (Join_ResultSet j) j = j"
  by (cases j) simp

lemma ToSQL_st_pure:
  "ToSQL_st pc rb (s :: 'c SelectStmt) = (ToSQL pc rb s, s)"
  and joinsLoop_st_pure:
  "joinsLoop_st pc (js :: 'c JoinClause list) = (joinsLoop pc js, js)"
proof (induction s and js arbitrary: rb rule: returns_returnsJoins.induct)
  case (1 isDistinct distinctColumns columns table joins conditions orderCols grouping
      groupConditions locks limitTo offsetFrom offsetRows q)
  then show ?case
    by (subst ToSQL_st.simps) (simp add: Let_def split: sum.split prod.split)
next
  case 2
  show ?case by simp
next
  case (3 joinType table resultSet conds rest)
  show ?case
  proof (cases resultSet)
    case None
    with 3(2) show ?thesis
      by (simp add: Let_def split: sum.split prod.split)
  next
    case (Some rs)
    with 3(1) [OF Some, of False] 3(2) show ?thesis
      by (simp add: Let_def split: sum.split prod.split)
  qed
qed

section \<open>The claims\<close>

text \<open>
  Claim C1. For every builder, \<^verbatim>\<open>Parse\<close> returns a text and a list of bindings such
  that the text holds as many \<^verbatim>\<open>?\<close> as there are bindings, and the N-th placeholder
  stands for the N-th binding: filling the placeholders with the bindings in order gives
  the expression with every value written in place, nested objects and arrays included.
\<close>

theorem Parse_placeholders_match_bindings:
  "Parse b = (sql, bindings) \<Longrightarrow>
   count_list sql (CHR ''?'') = length bindings \<and> fill lit sql bindings = inlined lit b"
  using Parse_aligned [where b = b and lit = lit] by simp

theorem Parse_placeholders_match_bindings_witness:
  "Parse (BuildJSONBObject
            [(''b'', IScalar (1::nat)), (''a'', IMap [(''z'', ISlice [IScalar 2, INil])])])
     = (''jsonb_build_object(?, jsonb_build_object(?, jsonb_build_array(?, ?)), ?, ?)'',
        [IString ''a'', IString ''z'', IScalar 2, INil, IString ''b'', IScalar 1])
   \<and> count_list ''jsonb_build_object(?, jsonb_build_object(?, jsonb_build_array(?, ?)), ?, ?)''
        (CHR ''?'') = 6
   \<and> fill showLiteral
        ''jsonb_build_object(?, jsonb_build_object(?, jsonb_build_array(?, ?)), ?, ?)''
        [IString ''a'', IString ''z'', IScalar 2, INil, IString ''b'', IScalar 1]
       = ''jsonb_build_object(a, jsonb_build_object(z, jsonb_build_array(2, NULL)), b, 1)''"
proof -
  have run: "Parse (BuildJSONBObject
            [(''b'', IScalar (1::nat)), (''a'', IMap [(''z'', ISlice [IScalar 2, INil])])])
     = (''jsonb_build_object(?, jsonb_build_object(?, jsonb_build_array(?, ?)), ?, ?)'',
        [IString ''a'', IString ''z'', IScalar 2, INil, IString ''b'', IScalar 1])"
    by code_simp
  have direct: "inlined showLiteral (BuildJSONBObject
            [(''b'', IScalar (1::nat)), (''a'', IMap [(''z'', ISlice [IScalar 2, INil])])])
     = ''jsonb_build_object(a, jsonb_build_object(z, jsonb_build_array(2, NULL)), b, 1)''"
    by code_simp
  from Parse_placeholders_match_bindings [OF run, of showLiteral] run direct
  show ?thesis by simp
qed

text \<open>
  Claim C2. When a statement that renders has a join on an embedded sub-statement, the
  bindings of the statement are: the bindings of the joins before it, then the bindings of
  the sub-statement, then the bindings of the join's own conditions, then those of the
  joins after it, of the WHERE conditions and of the HAVING conditions.
\<close>

theorem join_subselect_bindings_first:
  assumes "ToSQL pc rb s = Inr (sql, bs)"
    and "Joins s = js1 @ JoinClause ty tbl (Some rs) conds # js2"
  shows "\<exists>sql1 bs1 rsSQL rsBindings sql2 bs2.
           joinsLoop pc js1 = Inr (sql1, bs1)
         \<and> ToSQL pc False rs = Inr (rsSQL, rsBindings)
         \<and> joinsLoop pc js2 = Inr (sql2, bs2)
         \<and> bs = bs1 @ rsBindings @ snd (pc conds) @ bs2
                @ snd (writeWhere pc (Conditions s)) @ snd (writeHaving pc (GroupConditions s))"
  using assms
  by (auto simp add: ToSQL_fields joinsLoop_append Let_def
      split: sum.splits prod.splits option.splits)

theorem join_subselect_bindings_first_witness:
  "ToSQL eqConditions False
     (Where [(''z'', 9)]
        (Join LeftJoin ''u''
           (Some (Where [(''a'', 1)] (From ''sub'' (Select OtherQueryer [''x'']))))
           [(''b'', 2)]
           (From ''users'' (Select OtherQueryer []))))
     = Inr (''SELECT * FROM users LEFT JOIN (SELECT x FROM sub WHERE a = ?) u ON b = ? WHERE z = ?'',
            [1, 2, 9])
   \<and> ToSQL eqConditions False (Where [(''a'', 1)] (From ''sub'' (Select OtherQueryer [''x''])))
       = Inr (''SELECT x FROM sub WHERE a = ?'', [1])
   \<and> snd (eqConditions [(''b'', 2)]) = [2]"
proof -
  let ?rs = "Where [(''a'', 1::nat)] (From ''sub'' (Select OtherQueryer [''x'']))"
  let ?s = "Where [(''z'', 9)] (Join LeftJoin ''u'' (Some ?rs) [(''b'', 2)]
              (From ''users'' (Select OtherQueryer [])))"
  have run: "ToSQL eqConditions False ?s
     = Inr (''SELECT * FROM users LEFT JOIN (SELECT x FROM sub WHERE a = ?) u ON b = ? WHERE z = ?'',
            [1, 2, 9])"
    by code_simp
  have joins: "Joins ?s = [] @ JoinClause LeftJoin ''u'' (Some ?rs) [(''b'', 2)] # []"
    by (simp add: Where_def Join_def From_def Select_def)
  have sub: "ToSQL eqConditions False ?rs = Inr (''SELECT x FROM sub WHERE a = ?'', [1])"
    by code_simp
  have conds: "snd (eqConditions [(''b'', 2::nat)]) = [2]"
    by code_simp
  from join_subselect_bindings_first [OF run joins] run sub conds
  show ?thesis by simp
qed

text \<open>
  Claim C3, as the code has it. A lock clause whose strength is none of the four known
  ones writes nothing and raises nothing: the statement renders as it does without that
  lock, wherever the lock stands among the locks. The zero value of the strength is
  \<^verbatim>\<open>LockForUpdate\<close>, the first constant of the enumeration, and is not skipped: the
  counterexample renders a lock of strength zero as \<^verbatim>\<open>FOR UPDATE\<close>.
\<close>

theorem unknown_lock_strength_is_skipped:
  assumes "Strength lock \<notin> {LockForUpdate, LockForNoKeyUpdate, LockForShare, LockForKeyShare}"
  shows "lockBody lock = []
       \<and> ToSQL pc rb (set_Locks (ls1 @ Some lock # ls2) s) = ToSQL pc rb (set_Locks (ls1 @ ls2) s)
       \<and> ToSQL pc rb (Lock (Some lock) s) = ToSQL pc rb s"
proof -
  have body: "lockBody lock = []" using assms by (rule lockBody_unknown)
  have middle: "ToSQL pc rb (set_Locks (ls1 @ Some lock # ls2) s)
      = ToSQL pc rb (set_Locks (ls1 @ ls2) s)" for ls1 ls2
    by (rule ToSQL_set_Locks_cong) (rule locksLoop_skip [OF body])
  have "ToSQL pc rb (Lock (Some lock) s) = ToSQL pc rb (set_Locks (Locks s @ []) s)"
    unfolding Lock_def by (rule middle)
  then have "ToSQL pc rb (Lock (Some lock) s) = ToSQL pc rb s"
    by (simp add: set_Locks_same)
  with body middle show ?thesis by simp
qed

theorem unknown_lock_strength_is_skipped_witness:
  "Strength \<lparr>Strength = 7, Tables = [''users''], Wait = LockNoWait\<rparr>
     \<notin> {LockForUpdate, LockForNoKeyUpdate, LockForShare, LockForKeyShare}
   \<and> ToSQL eqConditions False
        (Lock (Some \<lparr>Strength = 7, Tables = [''users''], Wait = LockNoWait\<rparr>)
           (From ''users'' (Select OtherQueryer [])))
       = Inr (''SELECT * FROM users'', [])"
proof -
  have h: "Strength \<lparr>Strength = 7, Tables = [''users''], Wait = LockNoWait\<rparr>
     \<notin> {LockForUpdate, LockForNoKeyUpdate, LockForShare, LockForKeyShare}"
    by (simp add: enumerations)
  have plain: "ToSQL eqConditions False (From ''users'' (Select OtherQueryer []))
      = Inr (''SELECT * FROM users'', [])"
    by code_simp
  from unknown_lock_strength_is_skipped [OF h,
      where pc = eqConditions and rb = False and s = "From ''users'' (Select OtherQueryer [])"]
  show ?thesis using h plain by simp
qed

theorem zero_strength_lock_counterexample:
  "Strength \<lparr>Strength = 0, Tables = [], Wait = 0\<rparr> = 0
   \<and> ToSQL eqConditions False
        (Lock (Some \<lparr>Strength = 0, Tables = [], Wait = 0\<rparr>) (From ''t'' (Select OtherQueryer [])))
       = Inr (''SELECT * FROM t FOR UPDATE'', [])
   \<and> ToSQL eqConditions False (From ''t'' (Select OtherQueryer [])) = Inr (''SELECT * FROM t'', [])
   \<and> ToSQL eqConditions False
        (Lock (Some \<lparr>Strength = 0, Tables = [], Wait = 0\<rparr>) (From ''t'' (Select OtherQueryer [])))
       \<noteq> ToSQL eqConditions False (From ''t'' (Select OtherQueryer []))"
  by code_simp

text \<open>
  Claim C4 fails on the code. \<^verbatim>\<open>JoinType.String\<close> indexes a slice of four names, so a
  join whose type is outside 0..3 makes \<^verbatim>\<open>ToSQL\<close> panic: here on the statement
  \<^verbatim>\<open>Select().From("users").Join(JoinType(4), "u", nil)\<close>. (\<open>ToSQL_returns_iff\<close>
  above says on which statements \<^verbatim>\<open>ToSQL\<close> returns.)
\<close>

theorem ToSQL_bad_JoinType_panics:
  "ToSQL pc rb (Join 4 ''u'' None [] (From ''users'' (Select q []))) = Inl IndexOutOfRange"
  by (simp add: Join_def From_def Select_def JoinType_String_def split: prod.split)

text \<open>
  Claim C5. \<^verbatim>\<open>GetCount\<close> hands the executor the rendering of the clone \<open>countStmt\<close>,
  with placeholders rebound, and answers what the executor answers. The clone's columns
  are \<^verbatim>\<open>COUNT(*)\<close>, its limit and offsets are zero and its ordering is empty, its other
  fields are those of the statement. So the text handed over is the SELECT of
  \<^verbatim>\<open>COUNT(*)\<close>, then the joins, the WHERE, GROUP BY and HAVING clauses of the statement and
  its locks, with no ORDER BY, LIMIT or OFFSET clause, and the bindings are those of the
  statement. The receiver is left as it was. (The rendering of the statement itself is
  given next to that of the clone.)
\<close>

theorem GetCount_statement:
  "fst (GetCount pc get s) =
       (case joinsLoop pc (Joins s) of
          Inl e \<Rightarrow> Inl e
        | Inr (joinsSQL, joinsBindings) \<Rightarrow>
            (case locksLoop (Locks s) of
               Inl e \<Rightarrow> Inl e
             | Inr locksSQL \<Rightarrow>
                 Inr (get (queryer s)
                        (rebindSQL True (queryer s)
                          (''SELECT''
                           @ (if IsDistinct s then
                                '' DISTINCT''
                                @ (if DistinctColumns s = [] then []
                                   else '' ON ('' @ strings_Join (DistinctColumns s) '', '' @ '')'')
                              else [])
                           @ '' COUNT(*) FROM '' @ Table s
                           @ joinsSQL
                           @ (if Conditions s = [] then []
                              else '' WHERE '' @ fst (pc (Conditions s)))
                           @ (if Grouping s = [] then []
                              else '' GROUP BY '' @ strings_Join (Grouping s) '', '')
                           @ (if GroupConditions s = [] then []
                              else '' HAVING '' @ fst (pc (GroupConditions s)))
                           @ locksSQL))
                        (joinsBindings
                         @ (if Conditions s = [] then [] else snd (pc (Conditions s)))
                         @ (if GroupConditions s = [] then []
                            else snd (pc (GroupConditions s)))))))
   \<and> snd (GetCount pc get s) = s
   \<and> GetCount pc get s = (case GetRow pc get (countStmt s) of (result, c) \<Rightarrow> (result, s))
   \<and> GetRow pc get s =
       (case ToSQL pc True s of
          Inl e \<Rightarrow> (Inl e, s)
        | Inr (asSQL, bindings) \<Rightarrow> (Inr (get (queryer s) asSQL bindings), s))
   \<and> ToSQL pc rb (countStmt s) =
       (case joinsLoop pc (Joins s) of
          Inl e \<Rightarrow> Inl e
        | Inr (joinsSQL, joinsBindings) \<Rightarrow>
            (case locksLoop (Locks s) of
               Inl e \<Rightarrow> Inl e
             | Inr locksSQL \<Rightarrow>
                 Inr (rebindSQL rb (queryer s)
                        (''SELECT''
                         @ (if IsDistinct s then
                              '' DISTINCT''
                              @ (if DistinctColumns s = [] then []
                                 else '' ON ('' @ strings_Join (DistinctColumns s) '', '' @ '')'')
                            else [])
                         @ '' COUNT(*) FROM '' @ Table s
                         @ joinsSQL @ fst (writeWhere pc (Conditions s)) @ writeGroupBy (Grouping s)
                         @ fst (writeHaving pc (GroupConditions s)) @ locksSQL),
                      joinsBindings @ snd (writeWhere pc (Conditions s))
                      @ snd (writeHaving pc (GroupConditions s)))))
   \<and> ToSQL pc rb s =
       (case joinsLoop pc (Joins s) of
          Inl e \<Rightarrow> Inl e
        | Inr (joinsSQL, joinsBindings) \<Rightarrow>
            (case locksLoop (Locks s) of
               Inl e \<Rightarrow> Inl e
             | Inr locksSQL \<Rightarrow>
                 Inr (rebindSQL rb (queryer s)
                        (writeSelect (IsDistinct s) (DistinctColumns s) (Columns s) (Table s)
                         @ joinsSQL @ fst (writeWhere pc (Conditions s)) @ writeGroupBy (Grouping s)
                         @ fst (writeHaving pc (GroupConditions s)) @ writeOrderBy (Ordering s)
                         @ writeLimit (LimitTo s) @ writeOffset (OffsetFrom s) (OffsetRows s)
                         @ locksSQL),
                      joinsBindings @ snd (writeWhere pc (Conditions s))
                      @ snd (writeHaving pc (GroupConditions s)))))
   \<and> countStmt s = set_Ordering [] (set_OffsetRows 0 (set_OffsetFrom 0 (set_LimitTo 0
         (set_Columns [''COUNT(*)''] s))))
   \<and> Columns (countStmt s) = [''COUNT(*)'']
   \<and> LimitTo (countStmt s) = 0 \<and> OffsetFrom (countStmt s) = 0 \<and> OffsetRows (countStmt s) = 0
   \<and> Ordering (countStmt s) = []
   \<and> Joins (countStmt s) = Joins s \<and> Conditions (countStmt s) = Conditions s
   \<and> Grouping (countStmt s) = Grouping s \<and> GroupConditions (countStmt s) = GroupConditions s"
proof -
  have row: "GetRow pc get t =
       (case ToSQL pc True t of
          Inl e \<Rightarrow> (Inl e, t)
        | Inr (asSQL, bindings) \<Rightarrow> (Inr (get (queryer t) asSQL bindings), t))" for t
    by (simp add: GetRow_def ToSQL_st_pure split: sum.split prod.split)
  have count: "GetCount pc get s = (case GetRow pc get (countStmt s) of (result, c) \<Rightarrow> (result, s))"
    by (cases s)
      (simp add: GetCount_def countStmt_def row Let_def split: sum.split prod.split)
  have clone: "ToSQL pc rb (countStmt s) =
       (case joinsLoop pc (Joins s) of
          Inl e \<Rightarrow> Inl e
        | Inr (joinsSQL, joinsBindings) \<Rightarrow>
            (case locksLoop (Locks s) of
               Inl e \<Rightarrow> Inl e
             | Inr locksSQL \<Rightarrow>
                 Inr (rebindSQL rb (queryer s)
                        (''SELECT''
                         @ (if IsDistinct s then
                              '' DISTINCT''
                              @ (if DistinctColumns s = [] then []
                                 else '' ON ('' @ strings_Join (DistinctColumns s) '', '' @ '')'')
                            else [])
                         @ '' COUNT(*) FROM '' @ Table s
                         @ joinsSQL @ fst (writeWhere pc (Conditions s)) @ writeGroupBy (Grouping s)
                         @ fst (writeHaving pc (GroupConditions s)) @ locksSQL),
                      joinsBindings @ snd (writeWhere pc (Conditions s))
                      @ snd (writeHaving pc (GroupConditions s)))))" for rb
    by (cases s)
      (simp add: countStmt_def Let_def writeSelect_def writeOrderBy_def writeLimit_def
        writeOffset_def word_sless_alt split: sum.split prod.split)
  have fields: "queryer (countStmt s) = queryer s"
    "countStmt s = set_Ordering [] (set_OffsetRows 0 (set_OffsetFrom 0 (set_LimitTo 0
         (set_Columns [''COUNT(*)''] s))))"
    "Columns (countStmt s) = [''COUNT(*)'']"
    "LimitTo (countStmt s) = 0" "OffsetFrom (countStmt s) = 0" "OffsetRows (countStmt s) = 0"
    "Ordering (countStmt s) = []"
    "Joins (countStmt s) = Joins s" "Conditions (countStmt s) = Conditions s"
    "Grouping (countStmt s) = Grouping s" "GroupConditions (countStmt s) = GroupConditions s"
    by (cases s; simp add: countStmt_def Let_def)+
  have handed: "fst (GetCount pc get s) =
       (case joinsLoop pc (Joins s) of
          Inl e \<Rightarrow> Inl e
        | Inr (joinsSQL, joinsBindings) \<Rightarrow>
            (case locksLoop (Locks s) of
               Inl e \<Rightarrow> Inl e
             | Inr locksSQL \<Rightarrow>
                 Inr (get (queryer s)
                        (rebindSQL True (queryer s)
                          (''SELECT''
                           @ (if IsDistinct s then
                                '' DISTINCT''
                                @ (if DistinctColumns s = [] then []
                                   else '' ON ('' @ strings_Join (DistinctColumns s) '', '' @ '')'')
                              else [])
                           @ '' COUNT(*) FROM '' @ Table s
                           @ joinsSQL
                           @ (if Conditions s = [] then []
                              else '' WHERE '' @ fst (pc (Conditions s)))
                           @ (if Grouping s = [] then []
                              else '' GROUP BY '' @ strings_Join (Grouping s) '', '')
                           @ (if GroupConditions s = [] then []
                              else '' HAVING '' @ fst (pc (GroupConditions s)))
                           @ locksSQL))
                        (joinsBindings
                         @ (if Conditions s = [] then [] else snd (pc (Conditions s)))
                         @ (if GroupConditions s = [] then []
                            else snd (pc (GroupConditions s)))))))"
    unfolding count row clone [of True] writeWhere_text writeHaving_text writeGroupBy_text
    by (simp add: fields(1) split: sum.split prod.split)
  have left: "snd (GetCount pc get s) = s"
    unfolding count by (simp split: prod.split)
  show ?thesis
    using handed left count row [of s] clone [of rb] ToSQL_fields [of pc rb s] fields(2-)
    by simp
qed

theorem GetCount_statement_example:
  "ToSQL eqConditions False
     (Limit 10 (Offset 5 [] (OrderBy [\<lparr>Column = ''id'', Desc = True\<rparr>]
        (Having [(''n'', 3)] (GroupBy [''dept''] (Where [(''active'', 7)]
          (Join LeftJoin ''u'' None [(''b'', 2)]
             (From ''users'' (Select OtherQueryer [''id'', ''name''])))))))))
     = Inr (''SELECT id, name FROM users LEFT JOIN u ON b = ? WHERE active = ? GROUP BY dept HAVING n = ? ORDER BY id DESC LIMIT 10 OFFSET 5'',
            [2, 7, 3])
   \<and> fst (GetCount eqConditions echo
     (Limit 10 (Offset 5 [] (OrderBy [\<lparr>Column = ''id'', Desc = True\<rparr>]
        (Having [(''n'', 3)] (GroupBy [''dept''] (Where [(''active'', 7)]
          (Join LeftJoin ''u'' None [(''b'', 2)]
             (From ''users'' (Select OtherQueryer [''id'', ''name''])))))))))) 
     = Inr (''SELECT COUNT(*) FROM users LEFT JOIN u ON b = ? WHERE active = ? GROUP BY dept HAVING n = ?'',
            [2, 7, 3])"
proof -
  let ?s = "Limit 10 (Offset 5 [] (OrderBy [\<lparr>Column = ''id'', Desc = True\<rparr>]
        (Having [(''n'', 3::nat)] (GroupBy [''dept''] (Where [(''active'', 7)]
          (Join LeftJoin ''u'' None [(''b'', 2)]
             (From ''users'' (Select OtherQueryer [''id'', ''name''])))))))) "
  have orig: "ToSQL eqConditions False ?s
     = Inr (''SELECT id, name FROM users LEFT JOIN u ON b = ? WHERE active = ? GROUP BY dept HAVING n = ? ORDER BY id DESC LIMIT 10 OFFSET 5'',
            [2, 7, 3])"
    by code_simp
  have parts: "joinsLoop eqConditions (Joins ?s) = Inr ('' LEFT JOIN u ON b = ?'', [2])"
    "locksLoop (Locks ?s) = Inr []"
    "eqConditions [(''active'', 7)] = (''active = ?'', [7])"
    "eqConditions [(''n'', 3)] = (''n = ?'', [3])"
    by code_simp+
  have fields: "Conditions ?s = [(''active'', 7)]"
    "Grouping ?s = [''dept'']"
    "GroupConditions ?s = [(''n'', 3)]"
    "IsDistinct ?s = False" "DistinctColumns ?s = []" "Table ?s = ''users''"
    "queryer ?s = OtherQueryer"
    by (simp_all add: Limit_def Offset_def OrderBy_def Having_def GroupBy_def Where_def
          Join_def From_def Select_def)
  have "fst (GetCount eqConditions echo ?s)
     = Inr (''SELECT COUNT(*) FROM users LEFT JOIN u ON b = ? WHERE active = ? GROUP BY dept HAVING n = ?'',
            [2, 7, 3])"
    unfolding GetCount_statement [where pc = eqConditions and get = echo and s = ?s, THEN conjunct1]
    by (simp add: parts fields echo_def rebindSQL_def)
  with orig show ?thesis by simp
qed

text \<open>
  Claim C6. \<^verbatim>\<open>ToSQL\<close>, run with the memory of its receiver passed along, returns the
  statement as it was, its joins, locks and embedded sub-statements included, also when
  it panics; its result is that of the rendering above. So rendering the statement it
  leaves gives the same text and bindings and leaves the same statement again.
\<close>

theorem ToSQL_does_not_mutate:
  "snd (ToSQL_st pc rb s) = s
   \<and> fst (ToSQL_st pc rb s) = ToSQL pc rb s
   \<and> ToSQL_st pc rb (snd (ToSQL_st pc rb s)) = ToSQL_st pc rb s"
  by (simp add: ToSQL_st_pure)

theorem ToSQL_does_not_mutate_example:
  "ToSQL_st eqConditions False
     (Lock ForUpdate (Where [(''z'', 9)]
        (Join LeftJoin ''u''
           (Some (Limit 3 (Where [(''a'', 4)] (From ''sub'' (Select OtherQueryer [''x''])))))
           [(''b'', 2)]
           (From ''users'' (Select OtherQueryer [])))))
   = (Inr (''SELECT * FROM users LEFT JOIN (SELECT x FROM sub WHERE a = ? LIMIT 3) u ON b = ? WHERE z = ? FOR UPDATE'',
           [4, 2, 9]),
      Lock ForUpdate (Where [(''z'', 9)]
        (Join LeftJoin ''u''
           (Some (Limit 3 (Where [(''a'', 4)] (From ''sub'' (Select OtherQueryer [''x''])))))
           [(''b'', 2)]
           (From ''users'' (Select OtherQueryer [])))))"
proof -
  let ?s = "Lock ForUpdate (Where [(''z'', 9::nat)]
        (Join LeftJoin ''u''
           (Some (Limit 3 (Where [(''a'', 4)] (From ''sub'' (Select OtherQueryer [''x''])))))
           [(''b'', 2)]
           (From ''users'' (Select OtherQueryer []))))"
  have run: "ToSQL eqConditions False ?s
     = Inr (''SELECT * FROM users LEFT JOIN (SELECT x FROM sub WHERE a = ? LIMIT 3) u ON b = ? WHERE z = ? FOR UPDATE'',
           [4, 2, 9])"
    by code_simp
  from ToSQL_does_not_mutate [of eqConditions False ?s] run
  show ?thesis by (simp add: prod_eq_iff)
qed

text \<open>
  Claim C7, as the code has it. The six methods append to their field and never replace
  it: after two calls the field is what it was, extended by what the first call adds and
  then by what the second adds. \<^verbatim>\<open>Where\<close>, \<^verbatim>\<open>OrderBy\<close>, \<^verbatim>\<open>GroupBy\<close> and
  \<^verbatim>\<open>Having\<close> add their arguments, so two calls with \<open>xs\<close> then \<open>ys\<close> are one call
  with \<open>xs @ ys\<close>. \<^verbatim>\<open>Join\<close> and \<^verbatim>\<open>Lock\<close> add the one clause of their arguments:
  the variadic arguments of \<^verbatim>\<open>Join\<close> are the conditions of its one new clause, so two
  calls leave two clauses and are not one call with the conditions of both, which the
  counterexample shows.
\<close>

theorem additive_methods:
  "Conditions (Where ys (Where xs s)) = Conditions s @ xs @ ys
   \<and> Where ys (Where xs s) = Where (xs @ ys) s
   \<and> Ordering (OrderBy os2 (OrderBy os1 s)) = Ordering s @ os1 @ os2
   \<and> OrderBy os2 (OrderBy os1 s) = OrderBy (os1 @ os2) s
   \<and> Grouping (GroupBy gs2 (GroupBy gs1 s)) = Grouping s @ gs1 @ gs2
   \<and> GroupBy gs2 (GroupBy gs1 s) = GroupBy (gs1 @ gs2) s
   \<and> GroupConditions (Having ys (Having xs s)) = GroupConditions s @ xs @ ys
   \<and> Having ys (Having xs s) = Having (xs @ ys) s
   \<and> Joins (Join t2 tb2 rs2 ys (Join t1 tb1 rs1 xs s))
       = Joins s @ [JoinClause t1 tb1 rs1 xs, JoinClause t2 tb2 rs2 ys]
   \<and> Locks (Lock l2 (Lock l1 s)) = Locks s @ [l1, l2]"
  by (cases s)
    (simp add: Where_def OrderBy_def GroupBy_def Having_def Join_def Lock_def)

theorem Join_not_homomorphic_counterexample:
  "Joins (Join InnerJoin ''t'' None [(''b'', 2::nat)]
            (Join InnerJoin ''t'' None [(''a'', 1)] (Select OtherQueryer [])))
     = [JoinClause InnerJoin ''t'' None [(''a'', 1)], JoinClause InnerJoin ''t'' None [(''b'', 2)]]
   \<and> Joins (Join InnerJoin ''t'' None ([(''a'', 1::nat)] @ [(''b'', 2)]) (Select OtherQueryer []))
     = [JoinClause InnerJoin ''t'' None [(''a'', 1), (''b'', 2)]]
   \<and> Join InnerJoin ''t'' None [(''b'', 2::nat)]
        (Join InnerJoin ''t'' None [(''a'', 1)] (Select OtherQueryer []))
     \<noteq> Join InnerJoin ''t'' None ([(''a'', 1)] @ [(''b'', 2)]) (Select OtherQueryer [])"
  by (simp add: Join_def Select_def)

text \<open>
  Claim C8. For a statement whose joins and locks render, with \<open>pre\<close> the text of the
  statement up to and with its LIMIT clause (written out in the hypothesis) and
  \<open>locksSQL\<close> the text of its locks: an offset start of zero writes nothing between them,
  so no OFFSET clause at all; a positive start with a row count of zero writes
  \<^verbatim>\<open> OFFSET <start>\<close>; a positive start with a positive row count writes
  \<^verbatim>\<open> OFFSET <start> <rows>\<close>. So \<^verbatim>\<open>Offset(0)\<close> writes nothing, \<^verbatim>\<open>Offset(5)\<close> writes
  \<^verbatim>\<open> OFFSET 5\<close> on a statement that stores no row count, and \<^verbatim>\<open>Offset(5, 2)\<close> writes
  \<^verbatim>\<open> OFFSET 5 2\<close>.
\<close>

theorem offset_rendering:
  assumes joins: "joinsLoop pc (Joins s) = Inr (joinsSQL, joinsBindings)"
    and locks: "locksLoop (Locks s) = Inr locksSQL"
    and pre: "pre =
        ''SELECT''
        @ (if IsDistinct s then
             '' DISTINCT''
             @ (if DistinctColumns s = [] then []
                else '' ON ('' @ strings_Join (DistinctColumns s) '', '' @ '')'')
           else [])
        @ (if Columns s = [] then '' *'' else '' '' @ strings_Join (Columns s) '', '')
        @ '' FROM '' @ Table s
        @ joinsSQL
        @ (if Conditions s = [] then [] else '' WHERE '' @ fst (pc (Conditions s)))
        @ (if Grouping s = [] then [] else '' GROUP BY '' @ strings_Join (Grouping s) '', '')
        @ (if GroupConditions s = [] then [] else '' HAVING '' @ fst (pc (GroupConditions s)))
        @ (if Ordering s = [] then []
           else '' ORDER BY '' @ strings_Join (orderingLoop (Ordering s)) '', '')
        @ (if 0 <s LimitTo s then '' LIMIT '' @ Sprintf_d (sint (LimitTo s)) else [])"
    and bs: "bs =
        joinsBindings
        @ (if Conditions s = [] then [] else snd (pc (Conditions s)))
        @ (if GroupConditions s = [] then [] else snd (pc (GroupConditions s)))"
  shows "(OffsetFrom s = 0 \<longrightarrow>
            ToSQL pc rb s = Inr (rebindSQL rb (queryer s) (pre @ locksSQL), bs))
       \<and> (0 <s OffsetFrom s \<and> OffsetRows s = 0 \<longrightarrow>
            ToSQL pc rb s = Inr (rebindSQL rb (queryer s)
              (pre @ '' OFFSET '' @ Sprintf_d (sint (OffsetFrom s)) @ locksSQL), bs))
       \<and> (0 <s OffsetFrom s \<and> 0 <s OffsetRows s \<longrightarrow>
            ToSQL pc rb s = Inr (rebindSQL rb (queryer s)
              (pre @ '' OFFSET '' @ Sprintf_d (sint (OffsetFrom s)) @ '' ''
                 @ Sprintf_d (sint (OffsetRows s)) @ locksSQL), bs))
       \<and> ToSQL pc rb (Offset 0 [] s) = Inr (rebindSQL rb (queryer s) (pre @ locksSQL), bs)
       \<and> (OffsetRows s = 0 \<longrightarrow>
            ToSQL pc rb (Offset 5 [] s)
              = Inr (rebindSQL rb (queryer s) (pre @ '' OFFSET 5'' @ locksSQL), bs))
       \<and> ToSQL pc rb (Offset 5 [2] s)
            = Inr (rebindSQL rb (queryer s) (pre @ '' OFFSET 5 2'' @ locksSQL), bs)"
proof -
  have own: "ToSQL pc rb s
      = Inr (rebindSQL rb (queryer s) (pre @ writeOffset (OffsetFrom s) (OffsetRows s) @ locksSQL), bs)"
    unfolding pre bs ToSQL_text [OF joins locks] by simp
  have called: "ToSQL pc rb (Offset a rows s)
      = Inr (rebindSQL rb (queryer s)
          (pre @ writeOffset a (if length rows > 0 then hd rows else OffsetRows s) @ locksSQL), bs)"
    for a rows
    unfolding pre bs
    using ToSQL_text [of pc "Offset a rows s" joinsSQL joinsBindings locksSQL rb] joins locks
    by (simp add: Offset_fields)
  show ?thesis
    unfolding own called
    by (simp add: writeOffset_def word_sless_alt Let_def Sprintf_d_5 Sprintf_d_2)
qed

theorem offset_rendering_witness:
  "OffsetFrom (Lock ForUpdate (From ''users'' (Select OtherQueryer [])) :: (string \<times> nat) SelectStmt) = 0
   \<and> ToSQL eqConditions False (Lock ForUpdate (From ''users'' (Select OtherQueryer [])))
       = Inr (''SELECT * FROM users FOR UPDATE'', [])
   \<and> 0 <s OffsetFrom (Offset 5 [] (Lock ForUpdate (From ''users'' (Select OtherQueryer [])))
                        :: (string \<times> nat) SelectStmt)
   \<and> OffsetRows (Offset 5 [] (Lock ForUpdate (From ''users'' (Select OtherQueryer [])))
                  :: (string \<times> nat) SelectStmt) = 0
   \<and> ToSQL eqConditions False (Offset 5 [] (Lock ForUpdate (From ''users'' (Select OtherQueryer []))))
       = Inr (''SELECT * FROM users OFFSET 5 FOR UPDATE'', [])
   \<and> 0 <s OffsetRows (Offset 5 [2] (Lock ForUpdate (From ''users'' (Select OtherQueryer [])))
                        :: (string \<times> nat) SelectStmt)
   \<and> ToSQL eqConditions False (Offset 5 [2] (Lock ForUpdate (From ''users'' (Select OtherQueryer []))))
       = Inr (''SELECT * FROM users OFFSET 5 2 FOR UPDATE'', [])
   \<and> ToSQL eqConditions False (Offset 0 [] (Lock ForUpdate (From ''users'' (Select OtherQueryer []))))
       = Inr (''SELECT * FROM users FOR UPDATE'', [])"
proof -
  let ?s = "Lock ForUpdate (From ''users'' (Select OtherQueryer [])) :: (string \<times> nat) SelectStmt"
  let ?s1 = "Offset 5 [] ?s"
  let ?s2 = "Offset 5 [2] ?s"
  have zero_joins: "joinsLoop eqConditions (Joins ?s) = Inr ([], [])"
    and zero_locks: "locksLoop (Locks ?s) = Inr '' FOR UPDATE''"
    and zero_pre: "''SELECT * FROM users'' =
        ''SELECT''
        @ (if IsDistinct ?s then
             '' DISTINCT''
             @ (if DistinctColumns ?s = [] then []
                else '' ON ('' @ strings_Join (DistinctColumns ?s) '', '' @ '')'')
           else [])
        @ (if Columns ?s = [] then '' *'' else '' '' @ strings_Join (Columns ?s) '', '')
        @ '' FROM '' @ Table ?s
        @ []
        @ (if Conditions ?s = [] then [] else '' WHERE '' @ fst (eqConditions (Conditions ?s)))
        @ (if Grouping ?s = [] then [] else '' GROUP BY '' @ strings_Join (Grouping ?s) '', '')
        @ (if GroupConditions ?s = [] then []
           else '' HAVING '' @ fst (eqConditions (GroupConditions ?s)))
        @ (if Ordering ?s = [] then []
           else '' ORDER BY '' @ strings_Join (orderingLoop (Ordering ?s)) '', '')
        @ (if 0 <s LimitTo ?s then '' LIMIT '' @ Sprintf_d (sint (LimitTo ?s)) else [])"
    and zero_bs: "([] :: nat list) =
        []
        @ (if Conditions ?s = [] then [] else snd (eqConditions (Conditions ?s)))
        @ (if GroupConditions ?s = [] then [] else snd (eqConditions (GroupConditions ?s)))"
    by code_simp+
  have start_joins: "joinsLoop eqConditions (Joins ?s1) = Inr ([], [])"
    and start_locks: "locksLoop (Locks ?s1) = Inr '' FOR UPDATE''"
    and start_pre: "''SELECT * FROM users'' =
        ''SELECT''
        @ (if IsDistinct ?s1 then
             '' DISTINCT''
             @ (if DistinctColumns ?s1 = [] then []
                else '' ON ('' @ strings_Join (DistinctColumns ?s1) '', '' @ '')'')
           else [])
        @ (if Columns ?s1 = [] then '' *'' else '' '' @ strings_Join (Columns ?s1) '', '')
        @ '' FROM '' @ Table ?s1
        @ []
        @ (if Conditions ?s1 = [] then [] else '' WHERE '' @ fst (eqConditions (Conditions ?s1)))
        @ (if Grouping ?s1 = [] then [] else '' GROUP BY '' @ strings_Join (Grouping ?s1) '', '')
        @ (if GroupConditions ?s1 = [] then []
           else '' HAVING '' @ fst (eqConditions (GroupConditions ?s1)))
        @ (if Ordering ?s1 = [] then []
           else '' ORDER BY '' @ strings_Join (orderingLoop (Ordering ?s1)) '', '')
        @ (if 0 <s LimitTo ?s1 then '' LIMIT '' @ Sprintf_d (sint (LimitTo ?s1)) else [])"
    and start_bs: "([] :: nat list) =
        []
        @ (if Conditions ?s1 = [] then [] else snd (eqConditions (Conditions ?s1)))
        @ (if GroupConditions ?s1 = [] then [] else snd (eqConditions (GroupConditions ?s1)))"
    by code_simp+
  have rows_joins: "joinsLoop eqConditions (Joins ?s2) = Inr ([], [])"
    and rows_locks: "locksLoop (Locks ?s2) = Inr '' FOR UPDATE''"
    and rows_pre: "''SELECT * FROM users'' =
        ''SELECT''
        @ (if IsDistinct ?s2 then
             '' DISTINCT''
             @ (if DistinctColumns ?s2 = [] then []
                else '' ON ('' @ strings_Join (DistinctColumns ?s2) '', '' @ '')'')
           else [])
        @ (if Columns ?s2 = [] then '' *'' else '' '' @ strings_Join (Columns ?s2) '', '')
        @ '' FROM '' @ Table ?s2
        @ []
        @ (if Conditions ?s2 = [] then [] else '' WHERE '' @ fst (eqConditions (Conditions ?s2)))
        @ (if Grouping ?s2 = [] then [] else '' GROUP BY '' @ strings_Join (Grouping ?s2) '', '')
        @ (if GroupConditions ?s2 = [] then []
           else '' HAVING '' @ fst (eqConditions (GroupConditions ?s2)))
        @ (if Ordering ?s2 = [] then []
           else '' ORDER BY '' @ strings_Join (orderingLoop (Ordering ?s2)) '', '')
        @ (if 0 <s LimitTo ?s2 then '' LIMIT '' @ Sprintf_d (sint (LimitTo ?s2)) else [])"
    and rows_bs: "([] :: nat list) =
        []
        @ (if Conditions ?s2 = [] then [] else snd (eqConditions (Conditions ?s2)))
        @ (if GroupConditions ?s2 = [] then [] else snd (eqConditions (GroupConditions ?s2)))"
    by code_simp+
  have fields: "OffsetFrom ?s = 0" "OffsetRows ?s = 0"
    "0 <s OffsetFrom ?s1" "OffsetRows ?s1 = 0"
    "0 <s OffsetFrom ?s2" "0 <s OffsetRows ?s2"
    "Sprintf_d (sint (OffsetFrom ?s1)) = ''5''"
    "Sprintf_d (sint (OffsetFrom ?s2)) = ''5''"
    "Sprintf_d (sint (OffsetRows ?s2)) = ''2''"
    by code_simp+
  have zero: "ToSQL eqConditions False ?s = Inr (''SELECT * FROM users FOR UPDATE'', [])"
    and call0: "ToSQL eqConditions False (Offset 0 [] ?s)
        = Inr (''SELECT * FROM users FOR UPDATE'', [])"
    using offset_rendering [OF zero_joins zero_locks zero_pre zero_bs, of False] fields
    by simp_all
  have start: "ToSQL eqConditions False ?s1
      = Inr (''SELECT * FROM users OFFSET 5 FOR UPDATE'', [])"
    using offset_rendering [OF start_joins start_locks start_pre start_bs, of False] fields
    by simp
  have rows: "ToSQL eqConditions False ?s2
      = Inr (''SELECT * FROM users OFFSET 5 2 FOR UPDATE'', [])"
    using offset_rendering [OF rows_joins rows_locks rows_pre rows_bs, of False] fields
    by simp
  from zero call0 start rows fields show ?thesis by simp
qed

text \<open>
  Claim C9. \<^verbatim>\<open>BuildJSONBObject\<close> emits the keys in sorted order, each followed by its
  value. So two maps that hold the same key-value pairs, whatever the order in which
  \<^verbatim>\<open>range\<close> visits them, give the same builder and \<^verbatim>\<open>Parse\<close> gives the same text
  (and bindings) for both; and the same holds when the maps nested in the values list
  their entries in another order too.
\<close>

theorem BuildJSONBObject_key_order_independent:
  "(distinct (map fst m1) \<and> distinct (map fst m2) \<and> set m1 = set m2 \<longrightarrow>
      BuildJSONBObject m1 = BuildJSONBObject m2
      \<and> Parse (BuildJSONBObject m1) = Parse (BuildJSONBObject m2))
   \<and> (same_value (IMap m1) (IMap m2) \<longrightarrow>
      Parse (BuildJSONBObject m1) = Parse (BuildJSONBObject m2))
   \<and> (\<exists>keys. sorted keys \<and> set keys = fst ` set m1
        \<and> Bindings (BuildJSONBObject m1)
            = concat (map (\<lambda>key. [IString key, map_index m1 key]) keys))"
proof -
  have top: "BuildJSONBObject m1 = BuildJSONBObject m2"
    if "distinct (map fst m1)" and "distinct (map fst m2)" and "set m1 = set m2"
  proof -
    have "map_of m1 = map_of m2"
      using that by (simp add: map_of_inject_set)
    then have "map_index m1 key = map_index m2 key" for key
      by (simp add: map_index_def)
    then have "objectLoop m1 (sort (map fst m1)) = objectLoop m2 (sort (map fst m2))"
      using sorted_keys_unique [OF that] objectLoop_cong [of _ m1 m2] by simp
    then show ?thesis
      by (simp add: BuildJSONBObject_def)
  qed
  have deep: "Parse (BuildJSONBObject m1) = Parse (BuildJSONBObject m2)"
    if "same_value (IMap m1) (IMap m2)"
    using that by (intro Parse_same_value same_BuildJSONBObject) (simp_all add: BuildJSONBObject_def)
  have "sorted (sort (map fst m1)) \<and> set (sort (map fst m1)) = fst ` set m1
      \<and> Bindings (BuildJSONBObject m1)
          = concat (map (\<lambda>key. [IString key, map_index m1 key]) (sort (map fst m1)))"
    by (simp add: BuildJSONBObject_def objectLoop_concat)
  then have keys: "\<exists>keys. sorted keys \<and> set keys = fst ` set m1
      \<and> Bindings (BuildJSONBObject m1)
          = concat (map (\<lambda>key. [IString key, map_index m1 key]) keys)"
    by blast
  from top deep keys show ?thesis by auto
qed

theorem BuildJSONBObject_key_order_independent_witness:
  "distinct (map fst [(''b'', IScalar (1::nat)), (''a'', IMap [(''y'', IScalar 2), (''x'', INil)])])
   \<and> distinct (map fst [(''a'', IMap [(''y'', IScalar (2::nat)), (''x'', INil)]), (''b'', IScalar 1)])
   \<and> set [(''b'', IScalar (1::nat)), (''a'', IMap [(''y'', IScalar 2), (''x'', INil)])]
       = set [(''a'', IMap [(''y'', IScalar 2), (''x'', INil)]), (''b'', IScalar 1)]
   \<and> same_value (IMap [(''b'', IScalar (1::nat)), (''a'', IMap [(''y'', IScalar 2), (''x'', INil)])])
        (IMap [(''a'', IMap [(''x'', INil), (''y'', IScalar 2)]), (''b'', IScalar 1)])
   \<and> Parse (BuildJSONBObject [(''b'', IScalar (1::nat)), (''a'', IMap [(''y'', IScalar 2), (''x'', INil)])])
       = (''jsonb_build_object(?, jsonb_build_object(?, ?, ?, ?), ?, ?)'',
          [IString ''a'', IString ''x'', INil, IString ''y'', IScalar 2, IString ''b'', IScalar 1])
   \<and> Parse (BuildJSONBObject [(''a'', IMap [(''y'', IScalar (2::nat)), (''x'', INil)]), (''b'', IScalar 1)])
       = (''jsonb_build_object(?, jsonb_build_object(?, ?, ?, ?), ?, ?)'',
          [IString ''a'', IString ''x'', INil, IString ''y'', IScalar 2, IString ''b'', IScalar 1])
   \<and> Parse (BuildJSONBObject [(''a'', IMap [(''x'', INil), (''y'', IScalar (2::nat))]), (''b'', IScalar 1)])
       = (''jsonb_build_object(?, jsonb_build_object(?, ?, ?, ?), ?, ?)'',
          [IString ''a'', IString ''x'', INil, IString ''y'', IScalar 2, IString ''b'', IScalar 1])"
proof -
  let ?m1 = "[(''b'', IScalar (1::nat)), (''a'', IMap [(''y'', IScalar 2), (''x'', INil)])]"
  let ?m2 = "[(''a'', IMap [(''y'', IScalar (2::nat)), (''x'', INil)]), (''b'', IScalar 1)]"
  let ?m3 = "[(''a'', IMap [(''x'', INil), (''y'', IScalar (2::nat))]), (''b'', IScalar 1)]"
  have d1: "distinct (map fst ?m1)" by simp
  have d2: "distinct (map fst ?m2)" by simp
  have eq: "set ?m1 = set ?m2" by auto
  have inner: "same_value (IMap [(''y'', IScalar (2::nat)), (''x'', INil)])
      (IMap [(''x'', INil), (''y'', IScalar 2)])"
    by (rule same_IMap) (auto simp: map_index_def intro: same_value.intros)
  have sv: "same_value (IMap ?m1) (IMap ?m3)"
    by (rule same_IMap) (auto simp: map_index_def inner intro: same_value.intros)
  have run: "Parse (BuildJSONBObject ?m1)
      = (''jsonb_build_object(?, jsonb_build_object(?, ?, ?, ?), ?, ?)'',
          [IString ''a'', IString ''x'', INil, IString ''y'', IScalar 2, IString ''b'', IScalar 1])"
    by code_simp
  from BuildJSONBObject_key_order_independent [of ?m1 ?m2]
    BuildJSONBObject_key_order_independent [of ?m1 ?m3] d1 d2 eq sv run
  show ?thesis by simp
qed

text \<open>
  Claim C10. \<^verbatim>\<open>Offset\<close> with a start only assigns the start and nothing else: the
  stored row count stays. So \<^verbatim>\<open>Offset(5, 2)\<close> followed by \<^verbatim>\<open>Offset(7)\<close> renders
  \<^verbatim>\<open> OFFSET 7 2\<close>.
\<close>

theorem Offset_start_only_keeps_row_count:
  "Offset start [] s = set_OffsetFrom start s
   \<and> OffsetFrom (Offset start [] s) = start
   \<and> OffsetRows (Offset start [] s) = OffsetRows s
   \<and> (ToSQL pc False (set_Locks [] (set_OffsetFrom 0 s)) = Inr (pre, bs)
        \<and> locksLoop (Locks s) = Inr locksSQL \<longrightarrow>
      ToSQL pc rb (Offset 7 [] (Offset 5 [2] s))
        = Inr (rebindSQL rb (queryer s) (pre @ '' OFFSET 7 2'' @ locksSQL), bs))"
  by (cases s)
    (auto simp add: Offset_def Let_def ToSQL_fields writeOffset_def word_sless_alt
      Sprintf_d_7 Sprintf_d_2 split: sum.splits prod.splits)

theorem Offset_start_only_keeps_row_count_witness:
  "ToSQL eqConditions False
     (set_Locks [] (set_OffsetFrom 0 (From ''users'' (Select OtherQueryer []))))
     = Inr (''SELECT * FROM users'', [])
   \<and> locksLoop (Locks (From ''users'' (Select OtherQueryer []) :: (string \<times> nat) SelectStmt)) = Inr []
   \<and> ToSQL eqConditions False (Offset 7 [] (Offset 5 [2] (From ''users'' (Select OtherQueryer []))))
       = Inr (''SELECT * FROM users OFFSET 7 2'', [])"
proof -
  let ?s = "From ''users'' (Select OtherQueryer []) :: (string \<times> nat) SelectStmt"
  have base: "ToSQL eqConditions False (set_Locks [] (set_OffsetFrom 0 ?s))
      = Inr (''SELECT * FROM users'', [])"
    by code_simp
  have locks: "locksLoop (Locks ?s) = Inr []"
    by code_simp
  from Offset_start_only_keeps_row_count
    [where pc = eqConditions and s = ?s and pre = "''SELECT * FROM users''" and bs = "[]"
       and locksSQL = "[]" and rb = False and start = 7]
    base locks
  show ?thesis by simp
qed

end
